theory Spec2Isabelle
  imports Main "HOL-Library.AList"
begin

section \<open>Values, errors and dictionaries\<close>

text \<open>
  Every message of the two programs is a JSON value: a packet, a log entry and an event
  are Python dicts built by a dict display or read by \<^verbatim>\<open>json.loads\<close>. A dict is the
  list of its items in insertion order; a Python dict never holds a key twice, and
  \<open>map_of\<close> reads the first item of a key. Numbers are the integers; the clock readings
  of \<^verbatim>\<open>time.time()\<close> are taken as integers too.
\<close>

datatype json =
    JNull
  | JBool bool
  | JNum int
  | JStr string
  | JArr "json list"
  | JObj "(string \<times> json) list"

text \<open>The exceptions that the modelled code can raise.\<close>

datatype error =
    KeyError string
  | TypeError
  | AttributeError
  | JSONDecodeError
  | ConnectionClosed
  | RuntimeError

text \<open>Sequencing of two computations that may raise: the first exception wins.\<close>

definition thn :: "error + 'a \<Rightarrow> ('a \<Rightarrow> error + 'b) \<Rightarrow> error + 'b" where
  "thn m f = (case m of Inl e \<Rightarrow> Inl e | Inr x \<Rightarrow> f x)"

text \<open>\<^verbatim>\<open>d[k]\<close> for a string key: KeyError on a dict without the key, TypeError on
  every value that is not a dict.\<close>

definition subscript :: "json \<Rightarrow> string \<Rightarrow> error + json" where
  "subscript d k =
     (case d of
        JObj kvs \<Rightarrow> (case map_of kvs k of None \<Rightarrow> Inl (KeyError k) | Some v \<Rightarrow> Inr v)
      | _ \<Rightarrow> Inl TypeError)"

text \<open>\<^verbatim>\<open>d.get(k, dflt)\<close>: only a dict has the method.\<close>

definition dict_get :: "json \<Rightarrow> string \<Rightarrow> json \<Rightarrow> error + json" where
  "dict_get d k dflt =
     (case d of
        JObj kvs \<Rightarrow> Inr (case map_of kvs k of None \<Rightarrow> dflt | Some v \<Rightarrow> v)
      | _ \<Rightarrow> Inl AttributeError)"

text \<open>\<^verbatim>\<open>x - 1\<close>: defined on numbers, and on booleans, which Python counts as 0 and 1.\<close>

definition minus_one :: "json \<Rightarrow> error + json" where
  "minus_one x =
     (case x of
        JNum n \<Rightarrow> Inr (JNum (n - 1))
      | JBool b \<Rightarrow> Inr (JNum ((if b then 1 else 0) - 1))
      | _ \<Rightarrow> Inl TypeError)"

text \<open>
  A dict whose keys are JSON values, as the list of its items in insertion order. Python
  finds a key by \<^verbatim>\<open>==\<close>, under which \<^verbatim>\<open>True\<close> is 1 and \<^verbatim>\<open>False\<close> is 0; null, the
  numbers and the strings are equal to themselves only. \<open>key_of\<close> is the value that a
  key is compared by. An assignment to a key that is present keeps the key that is
  stored and replaces its value; an assignment to a new key adds an item at the end.
\<close>

definition key_of :: "json \<Rightarrow> json" where
  "key_of k = (case k of JBool b \<Rightarrow> JNum (if b then 1 else 0) | _ \<Rightarrow> k)"

definition key_eq :: "json \<Rightarrow> json \<Rightarrow> bool" where
  "key_eq a b = (key_of a = key_of b)"

text \<open>\<^verbatim>\<open>d.get(k)\<close>, \<^verbatim>\<open>d[k] = v\<close> and \<^verbatim>\<open>del d[k]\<close>.\<close>

fun items_get :: "(json \<times> 'v) list \<Rightarrow> json \<Rightarrow> 'v option" where
  "items_get [] k = None"
| "items_get ((k', v') # kvs) k = (if key_eq k' k then Some v' else items_get kvs k)"

fun items_set :: "json \<Rightarrow> 'v \<Rightarrow> (json \<times> 'v) list \<Rightarrow> (json \<times> 'v) list" where
  "items_set k v [] = [(k, v)]"
| "items_set k v ((k', v') # kvs) =
     (if key_eq k' k then (k', v) # kvs else (k', v') # items_set k v kvs)"

definition items_del :: "json \<Rightarrow> (json \<times> 'v) list \<Rightarrow> (json \<times> 'v) list" where
  "items_del k kvs = filter (\<lambda>kv. \<not> key_eq (fst kv) k) kvs"

text \<open>The items with every key replaced by the value it is compared by: no key is held
  twice when the keys of this list are distinct.\<close>

definition compared :: "(json \<times> 'v) list \<Rightarrow> (json \<times> 'v) list" where
  "compared kvs = map (\<lambda>kv. (key_of (fst kv), snd kv)) kvs"

section \<open>The relay agent (relay\_agent\_py.py)\<close>

record visibility =
  sees_src :: bool
  sees_dst :: bool
  sees_prev :: bool
  sees_next :: bool

definition ROLE_VISIBILITY :: "(string \<times> visibility) list" where
  "ROLE_VISIBILITY =
     [(''guard'',  \<lparr>sees_src = True,  sees_dst = False, sees_prev = False, sees_next = True\<rparr>),
      (''middle'', \<lparr>sees_src = False, sees_dst = False, sees_prev = True,  sees_next = True\<rparr>),
      (''exit'',   \<lparr>sees_src = False, sees_dst = True,  sees_prev = True,  sees_next = False\<rparr>)]"

definition NEXT_HOP :: "(string \<times> string) list" where
  "NEXT_HOP = [(''guard'', ''middle''), (''middle'', ''exit''), (''exit'', ''destination'')]"

definition ROLE_IPS :: "(string \<times> string) list" where
  "ROLE_IPS = [(''guard'', ''10.0.1.2''), (''middle'', ''10.0.2.2''), (''exit'', ''10.0.3.2'')]"

text \<open>The fields of a \<^verbatim>\<open>RelayAgent\<close> object (the socket apart).\<close>

record relay_agent =
  self_role :: string
  self_coordinator :: string
  self_my_ip :: string
  self_vis :: visibility
  self_packet_count :: nat

text \<open>\<^verbatim>\<open>RelayAgent.__init__\<close>: \<^verbatim>\<open>ROLE_VISIBILITY[role]\<close> raises KeyError on an unknown
  role.\<close>

definition RelayAgent_init :: "string \<Rightarrow> string \<Rightarrow> string \<Rightarrow> error + relay_agent" where
  "RelayAgent_init role coordinator my_ip =
     (case map_of ROLE_VISIBILITY role of
        None \<Rightarrow> Inl (KeyError role)
      | Some v \<Rightarrow>
          Inr \<lparr>self_role = role, self_coordinator = ''ws://'' @ coordinator,
               self_my_ip = my_ip, self_vis = v, self_packet_count = 0\<rparr>)"

text \<open>
  \<^verbatim>\<open>RelayAgent.build_log_entry\<close>. The items of the dict display are evaluated in order,
  and a conditional expression evaluates only the branch it takes. \<open>now\<close> is what
  \<^verbatim>\<open>time.strftime("%H:%M:%S")\<close> returns. The \<^verbatim>\<open>print\<close> after the display reads the
  entry and \<^verbatim>\<open>pkt.get\<close> only, so it raises nothing that the display has not raised.
\<close>

definition build_log_entry :: "string \<Rightarrow> relay_agent \<Rightarrow> json \<Rightarrow> error + json" where
  "build_log_entry now self pkt =
     (let v = self_vis self in
      thn (dict_get pkt ''circuit_id'' JNull) (\<lambda>cid.
      thn (if sees_src v then subscript pkt ''src''
           else if sees_prev v then dict_get pkt ''prev_hop'' (JStr ''???'')
           else Inr (JStr ''???'')) (\<lambda>from_ip.
      thn (if sees_dst v then subscript pkt ''dst''
           else if sees_next v then
             (case map_of NEXT_HOP (self_role self) of
                None \<Rightarrow> Inl (KeyError (self_role self))
              | Some n \<Rightarrow> Inr (JStr n))
           else Inr (JStr ''???'')) (\<lambda>to_ip.
      thn (thn (dict_get pkt ''layers'' (JNum 3)) minus_one) (\<lambda>layers_remaining.
      thn (dict_get pkt ''size'' (JNum 512)) (\<lambda>packet_size_bytes.
      Inr (JObj
        [(''relay'', JStr (self_role self)),
         (''relay_ip'', JStr (self_my_ip self)),
         (''circuit_id'', cid),
         (''ts'', JStr now),
         (''from_ip'', from_ip),
         (''to_ip'', to_ip),
         (''from_known'', JBool (sees_src v \<or> sees_prev v)),
         (''to_known'', JBool (sees_dst v \<or> sees_next v)),
         (''layers_remaining'', layers_remaining),
         (''packet_size_bytes'', packet_size_bytes)])))))))"

text \<open>The live path of one hop: the agent started for a role answers one packet
  (\<^verbatim>\<open>RelayAgent(role, coordinator, my_ip)\<close>, then \<^verbatim>\<open>build_log_entry(msg["data"])\<close>).\<close>

definition live_log :: "string \<Rightarrow> string \<Rightarrow> string \<Rightarrow> string \<Rightarrow> json \<Rightarrow> error + json" where
  "live_log now role coordinator my_ip pkt =
     thn (RelayAgent_init role coordinator my_ip) (\<lambda>self. build_log_entry now self pkt)"

section \<open>The coordinator (coordinator\_py.py)\<close>

text \<open>
  \<^verbatim>\<open>synthesize_log\<close>. The dict display \<open>vis\<close> evaluates \<^verbatim>\<open>pkt["src"]\<close> and
  \<^verbatim>\<open>pkt["dst"]\<close> for every role before it is indexed by the role.
\<close>

definition synthesize_log :: "string \<Rightarrow> string \<Rightarrow> json \<Rightarrow> error + json" where
  "synthesize_log now role pkt =
     thn (subscript pkt ''src'') (\<lambda>src.
     thn (subscript pkt ''dst'') (\<lambda>dst.
       (case map_of
           [(''guard'',  (src, JStr ''middle-relay'', True, True)),
            (''middle'', (JStr ''guard-node'', JStr ''exit-node'', True, True)),
            (''exit'',   (JStr ''middle-relay'', dst, True, True))] role of
          None \<Rightarrow> Inl (KeyError role)
        | Some (vis0, vis1, vis2, vis3) \<Rightarrow>
            thn (subscript pkt ''circuit_id'') (\<lambda>cid.
            thn (thn (subscript pkt ''layers'') minus_one) (\<lambda>layers_remaining.
            Inr (JObj
              [(''relay'', JStr role),
               (''circuit_id'', cid),
               (''ts'', JStr now),
               (''from_ip'', vis0),
               (''to_ip'', vis1),
               (''from_known'', JBool vis2),
               (''to_known'', JBool vis3),
               (''layers_remaining'', layers_remaining),
               (''synthesized'', JBool True)]))))))"

text \<open>Reading one field of a produced entry; \<open>None\<close> when no entry was produced or the
  entry has no such field.\<close>

definition field :: "string \<Rightarrow> error + json \<Rightarrow> json option" where
  "field k r = (case r of Inr (JObj kvs) \<Rightarrow> map_of kvs k | _ \<Rightarrow> None)"

text \<open>The two packets of the specification's examples, and the same packets carrying a
  circuit id as every packet of the coordinator does.\<close>

definition guard_example :: json where
  "guard_example =
     JObj [(''src'', JStr ''10.3.0.5''), (''dst'', JStr ''93.184.10.2''), (''layers'', JNum 3)]"

definition exit_example :: json where
  "exit_example =
     JObj [(''src'', JStr ''10.3.0.5''), (''dst'', JStr ''93.184.10.2''), (''layers'', JNum 1),
           (''prev_hop'', JStr ''10.0.2.2'')]"

definition with_circuit_id :: "string \<Rightarrow> json \<Rightarrow> json" where
  "with_circuit_id cid pkt =
     (case pkt of JObj kvs \<Rightarrow> JObj (AList.update ''circuit_id'' (JStr cid) kvs) | _ \<Rightarrow> pkt)"

subsection \<open>State\<close>

text \<open>
  A socket is known by its identity. \<^verbatim>\<open>agents\<close> is a dict from the role of a register
  message (any hashable JSON value) to the socket: the list of its items, read and
  written by \<open>items_get\<close>, \<open>items_set\<close> and \<open>items_del\<close>. \<^verbatim>\<open>browsers\<close> is a set of sockets: the list of its members in
  the order the \<^verbatim>\<open>for\<close> loop visits them. \<^verbatim>\<open>timing_log\<close> is a dict with the two
  fixed keys guard and exit, indexed by these only: the function from the key to its
  list. \<open>effects\<close> records, in order, every call of \<^verbatim>\<open>broadcast_to_browsers\<close> and every
  message that a socket accepted.
\<close>

type_synonym conn = nat

datatype effect = Broadcast json | Sent conn json

record state =
  agents :: "(json \<times> conn) list"
  browsers :: "conn list"
  circuit_counter :: nat
  timing_log :: "string \<Rightarrow> json list"
  effects :: "effect list"

definition initial_state :: state where
  "initial_state =
     \<lparr>agents = [], browsers = [], circuit_counter = 0, timing_log = (\<lambda>_. []), effects = []\<rparr>"

subsection \<open>Helpers\<close>

text \<open>\<^verbatim>\<open>str(n)\<close> of a natural number, and \<^verbatim>\<open>zfill\<close> on a string without a sign.\<close>

fun str_nat :: "nat \<Rightarrow> string" where
  "str_nat n =
     (if n < 10 then [''0123456789'' ! n]
      else str_nat (n div 10) @ [''0123456789'' ! (n mod 10)])"

declare str_nat.simps [simp del]

definition zfill :: "nat \<Rightarrow> string \<Rightarrow> string" where
  "zfill w s = replicate (w - length s) CHR ''0'' @ s"

text \<open>\<^verbatim>\<open>rand_ip\<close>; \<open>a\<close> and \<open>b\<close> are the two numbers drawn.\<close>

definition rand_ip :: "string \<Rightarrow> nat \<Rightarrow> nat \<Rightarrow> string" where
  "rand_ip prefix a b = prefix @ ''.'' @ str_nat a @ ''.'' @ str_nat b"

definition new_circuit_id :: "state \<Rightarrow> string \<times> state" where
  "new_circuit_id s =
     (let c = circuit_counter s + 1
      in (''C'' @ zfill 3 (str_nat c), s\<lparr>circuit_counter := c\<rparr>))"

text \<open>The truth value of a JSON value, as \<^verbatim>\<open>or\<close> tests it.\<close>

definition truthy :: "json \<Rightarrow> bool" where
  "truthy v =
     (case v of
        JNull \<Rightarrow> False
      | JBool b \<Rightarrow> b
      | JNum n \<Rightarrow> n \<noteq> 0
      | JStr x \<Rightarrow> x \<noteq> []
      | JArr xs \<Rightarrow> xs \<noteq> []
      | JObj kvs \<Rightarrow> kvs \<noteq> [])"

text \<open>A message \<^verbatim>\<open>{"type": ty, "data": d}\<close>.\<close>

definition message :: "string \<Rightarrow> json \<Rightarrow> json" where
  "message ty d = JObj [(''type'', JStr ty), (''data'', d)]"

subsection \<open>Event fan-out\<close>

text \<open>
  \<^verbatim>\<open>broadcast_to_browsers\<close>. The \<^verbatim>\<open>for\<close> loop iterates over the set \<^verbatim>\<open>browsers\<close>
  itself and is suspended at every \<^verbatim>\<open>await ws.send\<close>, where other tasks run: a
  handler that adds a browser, a handler whose \<^verbatim>\<open>finally\<close> clause discards one.
  \<open>change\<close> is what they do to the set during one send: nothing, or one socket joined
  or left. When the loop asks for the next member, the iterator of a set raises
  \<^verbatim>\<open>RuntimeError\<close> if the size of the set is not the size it had when the loop
  started; the \<^verbatim>\<open>for\<close> statement is outside the \<^verbatim>\<open>try\<close>, so this exception leaves
  \<^verbatim>\<open>broadcast_to_browsers\<close> and \<^verbatim>\<open>difference_update\<close> is not reached.

  \<open>fails ws\<close> says that \<^verbatim>\<open>ws.send\<close> raises in this broadcast; the
  \<^verbatim>\<open>except Exception\<close> clause adds the socket to \<open>dead\<close>. \<open>others k\<close> is the
  change during the send of number \<open>k\<close>. The loop carries the size \<open>n0\<close> at its start, the
  members still to visit, the set as it is now, \<open>dead\<close> and the messages delivered so
  far.
\<close>

datatype change = Unchanged | Joined conn | Left conn

definition apply_change :: "change \<Rightarrow> conn list \<Rightarrow> conn list" where
  "apply_change c bs =
     (case c of
        Unchanged \<Rightarrow> bs
      | Joined ws \<Rightarrow> (if ws \<in> set bs then bs else bs @ [ws])
      | Left ws \<Rightarrow> removeAll ws bs)"

fun broadcast_loop ::
  "(conn \<Rightarrow> bool) \<Rightarrow> (nat \<Rightarrow> change) \<Rightarrow> json \<Rightarrow> nat \<Rightarrow> nat \<Rightarrow> conn list \<Rightarrow> conn list
     \<Rightarrow> conn list \<times> effect list \<Rightarrow> error option \<times> conn list \<times> conn list \<times> effect list"
where
  "broadcast_loop fails others msg n0 k [] current (dead, out) =
     (if length current \<noteq> n0 then (Some RuntimeError, current, dead, out)
      else (None, current, dead, out))"
| "broadcast_loop fails others msg n0 k (ws # rest) current (dead, out) =
     (if length current \<noteq> n0 then (Some RuntimeError, current, dead, out)
      else broadcast_loop fails others msg n0 (k + 1) rest (apply_change (others k) current)
             (if fails ws then (dead @ [ws], out) else (dead, out @ [Sent ws msg])))"

definition broadcast_to_browsers ::
  "(conn \<Rightarrow> bool) \<Rightarrow> (nat \<Rightarrow> change) \<Rightarrow> json \<Rightarrow> state \<Rightarrow> error option \<times> state"
where
  "broadcast_to_browsers fails others msg s =
     (case broadcast_loop fails others msg (length (browsers s)) 0 (browsers s) (browsers s)
             ([], [Broadcast msg]) of
        (Some err, current, dead, out) \<Rightarrow>
          (Some err, s\<lparr>browsers := current, effects := effects s @ out\<rparr>)
      | (None, current, dead, out) \<Rightarrow>
          (None, s\<lparr>browsers := filter (\<lambda>ws. ws \<notin> set dead) current,
                   effects := effects s @ out\<rparr>))"

text \<open>A broadcast that no other task disturbs, and the state after it. The broadcasts
  of a circuit and of a handler are taken undisturbed.\<close>

definition undisturbed :: "nat \<Rightarrow> change" where
  "undisturbed = (\<lambda>_. Unchanged)"

definition delivered :: "(conn \<Rightarrow> bool) \<Rightarrow> json \<Rightarrow> state \<Rightarrow> state" where
  "delivered fails msg s = snd (broadcast_to_browsers fails undisturbed msg s)"

subsection \<open>Packet simulation\<close>

text \<open>
  What one run of \<^verbatim>\<open>send_circuit\<close> reads from outside: the numbers drawn, the clock,
  and for the hop of index \<open>i\<close> whether the agent's socket accepts the packet, what
  waiting for its answer gives, and which browsers fail in the broadcast of number \<open>k\<close>
  (0 for \<^verbatim>\<open>circuit_start\<close>, \<open>i + 1\<close> for the hop of index \<open>i\<close>, 4 for
  \<^verbatim>\<open>circuit_done\<close>).
\<close>

datatype recv =
    TimedOut
  | ConnClosed
  | Unparseable
  | Parsed json

record env =
  rand_src :: "nat \<times> nat"
  rand_dst :: "nat \<times> nat"
  rand_size :: int
  pkt_ts :: int
  sample_ts :: "nat \<Rightarrow> int"
  strftime :: "nat \<Rightarrow> string"
  agent_send_ok :: "nat \<Rightarrow> bool"
  agent_recv :: "nat \<Rightarrow> recv"
  browser_fails :: "nat \<Rightarrow> conn \<Rightarrow> bool"

definition roles :: "string list" where
  "roles = [''guard'', ''middle'', ''exit'']"

text \<open>\<^verbatim>\<open>timing_log[role].append({"t": time.time(), "cid": cid})\<close> under
  \<^verbatim>\<open>if role in ("guard", "exit")\<close>.\<close>

definition record_timing :: "int \<Rightarrow> string \<Rightarrow> string \<Rightarrow> state \<Rightarrow> state" where
  "record_timing now cid role s =
     (if role \<in> {''guard'', ''exit''} then
        s\<lparr>timing_log := (timing_log s)
            (role := timing_log s role @ [JObj [(''t'', JNum now), (''cid'', JStr cid)]])\<rparr>
      else s)"

text \<open>The packet of the hop of index \<open>i\<close>: \<^verbatim>\<open>{**pkt_base, "id": ..., "layers": 3 - i,
  "prev_hop": prev_hop_ip}\<close>; none of the three keys is in \<^verbatim>\<open>pkt_base\<close>.\<close>

definition hop_packet :: "string \<Rightarrow> (string \<times> json) list \<Rightarrow> nat \<Rightarrow> json \<Rightarrow> json" where
  "hop_packet cid pkt_base i prev_hop_ip =
     JObj (pkt_base @
       [(''id'', JStr (cid @ ''-'' @ str_nat (i + 1))),
        (''layers'', JNum (3 - int i)),
        (''prev_hop'', prev_hop_ip)])"

text \<open>
  The body of the \<^verbatim>\<open>for\<close> loop for one hop, up to the assignment of
  \<^verbatim>\<open>prev_hop_ip\<close>. The result is the exception that leaves \<^verbatim>\<open>send_circuit\<close>, if
  any, and the state reached. Only \<^verbatim>\<open>asyncio.TimeoutError\<close> is caught. An exception
  of a broadcast leaves \<^verbatim>\<open>send_circuit\<close> too.
\<close>

definition hop ::
  "env \<Rightarrow> string \<Rightarrow> (string \<times> json) list \<Rightarrow> nat \<Rightarrow> string \<Rightarrow> json \<Rightarrow> state \<Rightarrow> error option \<times> state"
where
  "hop e cid pkt_base i role prev_hop_ip s =
     (let pkt = hop_packet cid pkt_base i prev_hop_ip in
      case items_get (agents s) (JStr role) of
        Some ws \<Rightarrow>
          if \<not> agent_send_ok e i then (Some ConnectionClosed, s)
          else
            let s1 = s\<lparr>effects := effects s @ [Sent ws (message ''packet'' pkt)]\<rparr> in
            (case agent_recv e i of
               TimedOut \<Rightarrow> (None, s1)
             | ConnClosed \<Rightarrow> (Some ConnectionClosed, s1)
             | Unparseable \<Rightarrow> (Some JSONDecodeError, s1)
             | Parsed log_msg \<Rightarrow>
                 (case dict_get log_msg ''type'' JNull of
                    Inl err \<Rightarrow> (Some err, s1)
                  | Inr ty \<Rightarrow>
                      if ty = JStr ''log'' then
                        (case subscript log_msg ''data'' of
                           Inl err \<Rightarrow> (Some err, s1)
                         | Inr log \<Rightarrow>
                             broadcast_to_browsers (browser_fails e (i + 1)) undisturbed
                               (message ''relay_log'' log)
                               (record_timing (sample_ts e i) cid role s1))
                      else (None, s1)))
      | None \<Rightarrow>
          (case synthesize_log (strftime e i) role pkt of
             Inl err \<Rightarrow> (Some err, s)
           | Inr synth \<Rightarrow>
               broadcast_to_browsers (browser_fails e (i + 1)) undisturbed
                 (message ''relay_log'' synth)
                 (record_timing (sample_ts e i) cid role s)))"

text \<open>\<^verbatim>\<open>{"guard": "10.0.1.2", "middle": "10.0.2.2", "exit": "10.0.3.2"}.get(role, "?")\<close>\<close>

definition hop_address :: "string \<Rightarrow> json" where
  "hop_address role =
     JStr (case map_of [(''guard'', ''10.0.1.2''), (''middle'', ''10.0.2.2''),
                        (''exit'', ''10.0.3.2'')] role of
             None \<Rightarrow> ''?'' | Some a \<Rightarrow> a)"

text \<open>The \<^verbatim>\<open>for i, role in enumerate(roles)\<close> loop: an exception ends it.\<close>

fun hops ::
  "env \<Rightarrow> string \<Rightarrow> (string \<times> json) list \<Rightarrow> (nat \<times> string) list \<Rightarrow> json \<Rightarrow> state \<Rightarrow> error option \<times> state"
where
  "hops e cid pkt_base [] prev_hop_ip s = (None, s)"
| "hops e cid pkt_base ((i, role) # rest) prev_hop_ip s =
     (case hop e cid pkt_base i role prev_hop_ip s of
        (Some err, s') \<Rightarrow> (Some err, s')
      | (None, s') \<Rightarrow> hops e cid pkt_base rest (hop_address role) s')"

text \<open>The source and the destination that a circuit uses: the argument if it is true,
  a drawn address otherwise.\<close>

definition circuit_src :: "env \<Rightarrow> json \<Rightarrow> json" where
  "circuit_src e src_ip =
     (if truthy src_ip then src_ip
      else JStr (''10.'' @ str_nat (fst (rand_src e)) @ ''.0.'' @ str_nat (snd (rand_src e))))"

definition circuit_dst :: "env \<Rightarrow> json \<Rightarrow> json" where
  "circuit_dst e dst_ip =
     (if truthy dst_ip then dst_ip
      else JStr (rand_ip ''93.184'' (fst (rand_dst e)) (snd (rand_dst e))))"

definition pkt_base_of :: "env \<Rightarrow> string \<Rightarrow> json \<Rightarrow> json \<Rightarrow> (string \<times> json) list" where
  "pkt_base_of e cid src dst =
     [(''circuit_id'', JStr cid), (''src'', src), (''dst'', dst),
      (''size'', JNum (rand_size e)), (''ts'', JNum (pkt_ts e))]"

definition circuit_start :: "string \<Rightarrow> json \<Rightarrow> json \<Rightarrow> json" where
  "circuit_start cid src dst =
     message ''circuit_start'' (JObj [(''id'', JStr cid), (''src'', src), (''dst'', dst)])"

definition circuit_done :: "string \<Rightarrow> json" where
  "circuit_done cid = message ''circuit_done'' (JObj [(''id'', JStr cid)])"

text \<open>\<^verbatim>\<open>send_circuit(src_ip, dst_ip)\<close>; \<^verbatim>\<open>None\<close> is \<open>JNull\<close>.\<close>

definition send_circuit :: "env \<Rightarrow> json \<Rightarrow> json \<Rightarrow> state \<Rightarrow> error option \<times> state" where
  "send_circuit e src_ip dst_ip s =
     (case new_circuit_id s of
        (cid, s1) \<Rightarrow>
          let src = circuit_src e src_ip;
              dst = circuit_dst e dst_ip;
              pkt_base = pkt_base_of e cid src dst
          in (case broadcast_to_browsers (browser_fails e 0) undisturbed
                     (circuit_start cid src dst) s1 of
                (Some err, s2) \<Rightarrow> (Some err, s2)
              | (None, s2) \<Rightarrow>
                  (case hops e cid pkt_base (enumerate 0 roles) src s2 of
                     (Some err, s3) \<Rightarrow> (Some err, s3)
                   | (None, s3) \<Rightarrow>
                       broadcast_to_browsers (browser_fails e 4) undisturbed
                         (circuit_done cid) s3)))"

subsection \<open>Correlation sample\<close>

text \<open>The slice \<^verbatim>\<open>xs[-n:]\<close> for \<open>n > 0\<close>, and the context that
  \<^verbatim>\<open>run_ai_correlation\<close> builds for the analysis.\<close>

definition last_n :: "nat \<Rightarrow> 'a list \<Rightarrow> 'a list" where
  "last_n n xs = drop (length xs - n) xs"

definition correlation_ctx :: "state \<Rightarrow> json" where
  "correlation_ctx s =
     JObj [(''guard_events'', JArr (last_n 10 (timing_log s ''guard''))),
           (''exit_events'', JArr (last_n 10 (timing_log s ''exit''))),
           (''circuit_count'', JNum (int (circuit_counter s)))]"

text \<open>
  \<^verbatim>\<open>run_ai_correlation(api_key)\<close>. Without a key it returns at once. With a key it
  builds the context and calls \<^verbatim>\<open>client.messages.create\<close>, which is outside the
  repository: \<open>answer\<close> is what the call gives, an exception or the text of the
  analysis, which is broadcast as \<^verbatim>\<open>ai_analysis\<close>. Every exception, also one of the
  broadcast, is caught. The call is not awaited: it is an ordinary call inside the
  coroutine.
\<close>

datatype api = ApiError | ApiText string

definition run_ai_correlation ::
  "string \<Rightarrow> api \<Rightarrow> (conn \<Rightarrow> bool) \<Rightarrow> (nat \<Rightarrow> change) \<Rightarrow> state \<Rightarrow> state"
where
  "run_ai_correlation api_key answer fails others s =
     (if api_key = [] then s
      else
        (case answer of
           ApiError \<Rightarrow> s
         | ApiText result \<Rightarrow>
             snd (broadcast_to_browsers fails others
                    (message ''ai_analysis'' (JObj [(''text'', JStr result)])) s)))"

subsection \<open>WebSocket handler\<close>

text \<open>
  \<^verbatim>\<open>handler(ws)\<close> runs in two parts, with other tasks in between: from the first
  message to the point where it waits on the socket (\<open>handler_open\<close>), and the
  \<^verbatim>\<open>finally\<close> clause when the socket closes (\<open>handler_close\<close>). The first
  \<^verbatim>\<open>recv\<close> with \<^verbatim>\<open>json.loads\<close> gives a message, or any exception, on which the
  handler returns. \<open>bound\<close> is what the handler waits as; an exception before the
  \<^verbatim>\<open>try\<close> leaves the handler with no \<^verbatim>\<open>finally\<close> clause to run. The messages that a browser
  sends while it is connected start runs of \<^verbatim>\<open>send_circuit\<close> as tasks of their own.
\<close>

datatype first = NoMessage | Message json

datatype bound = Unbound | AsAgent json | AsBrowser

text \<open>A list or a dict is not hashable and cannot be a key of \<^verbatim>\<open>agents\<close>.\<close>

definition hashable :: "json \<Rightarrow> bool" where
  "hashable v = (case v of JArr _ \<Rightarrow> False | JObj _ \<Rightarrow> False | _ \<Rightarrow> True)"

definition agent_connected :: "json \<Rightarrow> json \<Rightarrow> json" where
  "agent_connected role ip = message ''agent_connected'' (JObj [(''role'', role), (''ip'', ip)])"

definition agent_status :: "state \<Rightarrow> json" where
  "agent_status s = message ''agent_status'' (JObj [(''connected'', JArr (map fst (agents s)))])"

text \<open>\<open>fails\<close> are the browsers that fail in the broadcast of \<^verbatim>\<open>agent_connected\<close>;
  \<open>status_ok\<close> says that the new browser accepts \<^verbatim>\<open>agent_status\<close>.\<close>

definition handler_open ::
  "(conn \<Rightarrow> bool) \<Rightarrow> bool \<Rightarrow> first \<Rightarrow> conn \<Rightarrow> state \<Rightarrow> error option \<times> bound \<times> state"
where
  "handler_open fails status_ok fst_msg ws s =
     (case fst_msg of
        NoMessage \<Rightarrow> (None, Unbound, s)
      | Message msg \<Rightarrow>
          (case dict_get msg ''type'' JNull of
             Inl err \<Rightarrow> (Some err, Unbound, s)
           | Inr ty \<Rightarrow>
               if ty = JStr ''register'' then
                 (case subscript msg ''role'' of
                    Inl err \<Rightarrow> (Some err, Unbound, s)
                  | Inr role \<Rightarrow>
                      if \<not> hashable role then (Some TypeError, Unbound, s)
                      else
                        (case broadcast_to_browsers fails undisturbed
                                (agent_connected role
                                   (case dict_get msg ''ip'' JNull of
                                      Inl _ \<Rightarrow> JNull | Inr ip \<Rightarrow> ip))
                                (s\<lparr>agents := items_set role ws (agents s)\<rparr>) of
                           (Some err, s') \<Rightarrow> (Some err, Unbound, s')
                         | (None, s') \<Rightarrow> (None, AsAgent role, s')))
               else if ty = JStr ''browser'' then
                 (let s1 = s\<lparr>browsers :=
                            (if ws \<in> set (browsers s) then browsers s else browsers s @ [ws])\<rparr>
                  in if status_ok then
                       (None, AsBrowser, s1\<lparr>effects := effects s1 @ [Sent ws (agent_status s1)]\<rparr>)
                     else (Some ConnectionClosed, Unbound, s1))
               else (None, Unbound, s)))"

text \<open>The \<^verbatim>\<open>finally\<close> clauses: \<^verbatim>\<open>if agents.get(role) == ws: del agents[role]\<close> for an
  agent, \<^verbatim>\<open>browsers.discard(ws)\<close> for a browser.\<close>

definition handler_close :: "bound \<Rightarrow> conn \<Rightarrow> state \<Rightarrow> state" where
  "handler_close b ws s =
     (case b of
        Unbound \<Rightarrow> s
      | AsAgent role \<Rightarrow>
          if items_get (agents s) role = Some ws then s\<lparr>agents := items_del role (agents s)\<rparr>
          else s
      | AsBrowser \<Rightarrow> s\<lparr>browsers := removeAll ws (browsers s)\<rparr>)"

subsection \<open>Packet scheduler\<close>

text \<open>
  \<^verbatim>\<open>auto_scheduler\<close>. \<open>count\<close> is its local counter and \<open>spawned\<close> the number of
  \<^verbatim>\<open>run_ai_correlation\<close> tasks it has created. \<open>scheduler_tick\<close> is the body of the
  \<^verbatim>\<open>while True\<close> loop after the sleep; an exception of \<^verbatim>\<open>send_circuit\<close> leaves the
  loop.
\<close>

record sched =
  count :: nat
  spawned :: nat

definition scheduler_tick :: "env \<Rightarrow> state \<Rightarrow> sched \<Rightarrow> error option \<times> state \<times> sched" where
  "scheduler_tick e s sc =
     (if browsers s \<noteq> [] then
        (case send_circuit e JNull JNull s of
           (Some err, s') \<Rightarrow> (Some err, s', sc)
         | (None, s') \<Rightarrow>
             let c = count sc + 1
             in (None, s',
                 \<lparr>count = c, spawned = (if c mod 5 = 0 then spawned sc + 1 else spawned sc)\<rparr>))
      else (None, s, sc))"

text \<open>
  The loop on the event loop. All coroutines of the coordinator run on one event loop,
  one at a time: a coroutine holds the loop from one \<^verbatim>\<open>await\<close> to the next. A task
  made by \<^verbatim>\<open>asyncio.create_task\<close> starts when its creator is suspended, which for the
  scheduler is the next \<^verbatim>\<open>await asyncio.sleep(interval)\<close>. The sleep ends \<open>interval\<close>
  after it began, or when the loop is free again if that is later.

  Times are in milliseconds. One pass of the loop reads from outside: what
  \<^verbatim>\<open>send_circuit\<close> reads, what the other tasks do to the state during the sleep, what
  the call of the analysis gives and how long it takes, which browsers fail and what
  changes in the broadcast of \<^verbatim>\<open>ai_analysis\<close>, and how long the circuit takes.
  \<open>timeline\<close> is the clock of the loop, whether a task made by the last pass is still to
  run, and the times at which the scheduler has called \<^verbatim>\<open>send_circuit\<close>.
\<close>

record tick =
  tick_env :: env
  tick_others :: "state \<Rightarrow> state"
  tick_answer :: api
  tick_api_time :: nat
  tick_fails :: "conn \<Rightarrow> bool"
  tick_changes :: "nat \<Rightarrow> change"
  tick_elapsed :: nat

record timeline =
  loop_time :: nat
  task_pending :: bool
  originated :: "nat list"

text \<open>\<^verbatim>\<open>await asyncio.sleep(interval)\<close>: the pending task runs first and, with a key,
  holds the loop for the time of its call; the result is the state and the time at
  which the scheduler goes on.\<close>

definition asleep :: "nat \<Rightarrow> string \<Rightarrow> tick \<Rightarrow> state \<Rightarrow> timeline \<Rightarrow> state \<times> nat" where
  "asleep interval ai_key p s tm =
     (let s1 = (if task_pending tm then
                  run_ai_correlation ai_key (tick_answer p) (tick_fails p) (tick_changes p) s
                else s);
          held = (if task_pending tm \<and> ai_key \<noteq> [] then tick_api_time p else 0)
      in (tick_others p s1, max (loop_time tm + interval) (loop_time tm + held)))"

fun auto_scheduler ::
  "nat \<Rightarrow> string \<Rightarrow> tick list \<Rightarrow> state \<Rightarrow> sched \<Rightarrow> timeline
     \<Rightarrow> error option \<times> state \<times> sched \<times> timeline"
where
  "auto_scheduler interval ai_key [] s sc tm = (None, s, sc, tm)"
| "auto_scheduler interval ai_key (p # ps) s sc tm =
     (case asleep interval ai_key p s tm of
        (s1, wake) \<Rightarrow>
          let tm1 = (if browsers s1 \<noteq> [] then
                       \<lparr>loop_time = wake + tick_elapsed p, task_pending = False,
                        originated = originated tm @ [wake]\<rparr>
                     else \<lparr>loop_time = wake, task_pending = False, originated = originated tm\<rparr>)
          in (case scheduler_tick (tick_env p) s1 sc of
                (Some err, s2, sc2) \<Rightarrow> (Some err, s2, sc2, tm1)
              | (None, s2, sc2) \<Rightarrow>
                  auto_scheduler interval ai_key ps s2 sc2
                    (tm1\<lparr>task_pending := (spawned sc2 \<noteq> spawned sc)\<rparr>)))"

subsection \<open>Reading the record of a run\<close>

text \<open>The messages passed to \<^verbatim>\<open>broadcast_to_browsers\<close>, in order.\<close>

fun broadcasts :: "effect list \<Rightarrow> json list" where
  "broadcasts [] = []"
| "broadcasts (Broadcast m # es) = m # broadcasts es"
| "broadcasts (Sent ws m # es) = broadcasts es"

text \<open>An environment in which nothing fails and every agent times out.\<close>

definition quiet_env :: env where
  "quiet_env =
     \<lparr>rand_src = (3, 5), rand_dst = (10, 2), rand_size = 512, pkt_ts = 0,
      sample_ts = (\<lambda>i. int i), strftime = (\<lambda>_. ''12:00:00''),
      agent_send_ok = (\<lambda>_. True), agent_recv = (\<lambda>_. TimedOut),
      browser_fails = (\<lambda>_ _. False)\<rparr>"

text \<open>The log entry that the hop of index \<open>i\<close> forwards to the browsers, if any: the
  synthesized entry when no agent holds the role, the \<^verbatim>\<open>data\<close> of the agent's answer
  when the agent took the packet and its answer is a \<^verbatim>\<open>log\<close> message.
  \<open>hop_logs\<close> collects them in the order of the hops.\<close>

definition hop_log :: "env \<Rightarrow> (json \<times> conn) list \<Rightarrow> json \<Rightarrow> nat \<Rightarrow> string \<Rightarrow> json list" where
  "hop_log e ags pkt i role =
     (case items_get ags (JStr role) of
        None \<Rightarrow> (case synthesize_log (strftime e i) role pkt of Inl _ \<Rightarrow> [] | Inr synth \<Rightarrow> [synth])
      | Some ws \<Rightarrow>
          (case agent_recv e i of
             Parsed log_msg \<Rightarrow>
               (if agent_send_ok e i \<and> dict_get log_msg ''type'' JNull = Inr (JStr ''log'') then
                  (case subscript log_msg ''data'' of Inl _ \<Rightarrow> [] | Inr log \<Rightarrow> [log])
                else [])
           | _ \<Rightarrow> []))"

fun hop_logs ::
  "env \<Rightarrow> (json \<times> conn) list \<Rightarrow> string \<Rightarrow> (string \<times> json) list \<Rightarrow> (nat \<times> string) list \<Rightarrow> json \<Rightarrow> json list"
where
  "hop_logs e ags cid pkt_base [] prev_hop_ip = []"
| "hop_logs e ags cid pkt_base ((i, role) # rest) prev_hop_ip =
     hop_log e ags (hop_packet cid pkt_base i prev_hop_ip) i role
       @ hop_logs e ags cid pkt_base rest (hop_address role)"

text \<open>The message with which a relay agent registers (\<^verbatim>\<open>RelayAgent.connect\<close>).\<close>

definition register_message :: "json \<Rightarrow> json \<Rightarrow> json" where
  "register_message role ip = JObj [(''type'', JStr ''register''), (''role'', role), (''ip'', ip)]"

text \<open>What happens at the coordinator, one event at a time: a handler starts, a socket
  closes, a circuit runs.\<close>

datatype event =
    Opened "conn \<Rightarrow> bool" bool first conn
  | Closed bound conn
  | Circuit env json json

fun apply_event :: "event \<Rightarrow> state \<Rightarrow> state" where
  "apply_event (Opened fails status_ok fst_msg ws) s =
     snd (snd (handler_open fails status_ok fst_msg ws s))"
| "apply_event (Closed b ws) s = handler_close b ws s"
| "apply_event (Circuit e src_ip dst_ip) s = snd (send_circuit e src_ip dst_ip s)"

fun run :: "event list \<Rightarrow> state \<Rightarrow> state" where
  "run [] s = s"
| "run (ev # evs) s = run evs (apply_event ev s)"

text \<open>The packets that the coordinator builds for the first two hops of a circuit C001
  from 10.3.0.5 to 93.184.10.2.\<close>

definition first_packet :: json where
  "first_packet =
     hop_packet ''C001'' (pkt_base_of quiet_env ''C001'' (JStr ''10.3.0.5'') (JStr ''93.184.10.2''))
       0 (JStr ''10.3.0.5'')"

definition second_packet :: json where
  "second_packet =
     hop_packet ''C001'' (pkt_base_of quiet_env ''C001'' (JStr ''10.3.0.5'') (JStr ''93.184.10.2''))
       1 (hop_address ''guard'')"

text \<open>The five fields of an entry that the visibility rules decide.\<close>

definition named_fields :: "error + json \<Rightarrow> json option list" where
  "named_fields r =
     map (\<lambda>k. field k r) [''from_ip'', ''to_ip'', ''from_known'', ''to_known'', ''layers_remaining'']"

text \<open>Whether a message has the type \<open>ty\<close>, as \<^verbatim>\<open>m.get("type") == ty\<close> tests it.\<close>

definition has_type :: "string \<Rightarrow> json \<Rightarrow> bool" where
  "has_type ty m = (dict_get m ''type'' JNull = Inr (JStr ty))"

text \<open>The sample that a hop records in \<^verbatim>\<open>timing_log\<close>.\<close>

definition timing_sample :: "int \<Rightarrow> string \<Rightarrow> json" where
  "timing_sample now cid = JObj [(''t'', JNum now), (''cid'', JStr cid)]"

text \<open>A coordinator with one browser and a live guard, and an environment in which the
  guard answers the first packet with text that is not JSON.\<close>

definition guard_only :: state where
  "guard_only = initial_state\<lparr>agents := [(JStr ''guard'', 7)], browsers := [1]\<rparr>"

definition garbled_env :: env where
  "garbled_env = quiet_env\<lparr>agent_recv := (\<lambda>i. if i = 0 then Unparseable else TimedOut)\<rparr>"

text \<open>A coordinator with one browser and no agent.\<close>

definition watched :: state where
  "watched = initial_state\<lparr>browsers := [1]\<rparr>"

text \<open>A scheduler that has run four circuits, at time 11200, and a pass of its loop in
  which the circuit takes 300 and a call of the analysis 4000.\<close>

definition four_done :: sched where
  "four_done = \<lparr>count = 4, spawned = 0\<rparr>"

definition at_11200 :: timeline where
  "at_11200 = \<lparr>loop_time = 11200, task_pending = False, originated = []\<rparr>"

definition slow_analysis :: tick where
  "slow_analysis =
     \<lparr>tick_env = quiet_env, tick_others = (\<lambda>s. s), tick_answer = ApiText ''no pairs'',
      tick_api_time = 4000, tick_fails = (\<lambda>_. False), tick_changes = undisturbed,
      tick_elapsed = 300\<rparr>"

text \<open>Three observers, of which the first fails in a broadcast and is discarded by its
  handler while the second is being sent to.\<close>

definition three_watching :: state where
  "three_watching = initial_state\<lparr>browsers := [1, 2, 3]\<rparr>"

definition first_leaves :: "nat \<Rightarrow> change" where
  "first_leaves = (\<lambda>k. if k = 1 then Left 1 else Unchanged)"

text \<open>Eleven samples, and a coordinator whose lists of guard and exit hold them.\<close>

definition eleven_samples :: "json list" where
  "eleven_samples =
     [timing_sample 0 ''C001'', timing_sample 1 ''C002'', timing_sample 2 ''C003'',
      timing_sample 3 ''C004'', timing_sample 4 ''C005'', timing_sample 5 ''C006'',
      timing_sample 6 ''C007'', timing_sample 7 ''C008'', timing_sample 8 ''C009'',
      timing_sample 9 ''C010'', timing_sample 10 ''C011'']"

definition after_eleven :: state where
  "after_eleven =
     initial_state\<lparr>circuit_counter := 11,
       timing_log := (\<lambda>_. [])(''guard'' := eleven_samples, ''exit'' := eleven_samples)\<rparr>"

text \<open>An agent registers on socket 7 with the number 1 as its role.\<close>

definition one_registered :: "event list" where
  "one_registered =
     [Opened (\<lambda>_. False) True (Message (register_message (JNum 1) (JStr ''10.0.1.2''))) 7]"

section \<open>Proofs\<close>

subsection \<open>Fan-out and hops\<close>

lemma broadcast_loop_undisturbed:
  "broadcast_loop fails undisturbed msg (length cur) k wss cur (dead, out) =
     (None, cur, dead @ filter fails wss,
      out @ map (\<lambda>w. Sent w msg) (filter (\<lambda>w. \<not> fails w) wss))"
  by (induction wss arbitrary: k dead out) (simp_all add: undisturbed_def apply_change_def)

lemma delivered_eq:
  "delivered fails msg s =
     s\<lparr>browsers := filter (\<lambda>w. \<not> fails w) (browsers s),
       effects := effects s @ Broadcast msg # map (\<lambda>w. Sent w msg) (filter (\<lambda>w. \<not> fails w) (browsers s))\<rparr>"
proof -
  have "filter (\<lambda>ws. ws \<notin> set (filter fails (browsers s))) (browsers s)
        = filter (\<lambda>w. \<not> fails w) (browsers s)"
    by (rule filter_cong) auto
  then show ?thesis
    by (simp add: delivered_def broadcast_to_browsers_def broadcast_loop_undisturbed)
qed

lemma broadcast_undisturbed:
  "broadcast_to_browsers fails undisturbed msg s = (None, delivered fails msg s)"
  by (simp add: delivered_def broadcast_to_browsers_def broadcast_loop_undisturbed)

lemma broadcasts_append: "broadcasts (xs @ ys) = broadcasts xs @ broadcasts ys"
  by (induction xs rule: broadcasts.induct) simp_all

lemma broadcasts_Sent: "broadcasts (map (\<lambda>w. Sent w msg) wss) = []"
  by (induction wss) simp_all

lemma broadcasts_broadcast:
  "broadcasts (effects (delivered fails msg s)) = broadcasts (effects s) @ [msg]"
  by (simp add: delivered_eq broadcasts_append broadcasts_Sent)

lemma broadcast_frame:
  "agents (delivered fails msg s) = agents s"
  "circuit_counter (delivered fails msg s) = circuit_counter s"
  "timing_log (delivered fails msg s) = timing_log s"
  by (simp_all add: delivered_eq)

lemma record_timing_frame:
  "agents (record_timing now cid role s) = agents s"
  "circuit_counter (record_timing now cid role s) = circuit_counter s"
  "effects (record_timing now cid role s) = effects s"
  "browsers (record_timing now cid role s) = browsers s"
  by (simp_all add: record_timing_def)

lemma record_timing_grows:
  "\<exists>new. timing_log (record_timing now cid role s) k = timing_log s k @ new"
  by (simp add: record_timing_def)

lemma hop_frame:
  assumes "hop e cid pkt_base i role prev s = (r, s')"
  shows "agents s' = agents s" and "circuit_counter s' = circuit_counter s"
  using assms
  by (auto simp: hop_def broadcast_undisturbed Let_def broadcast_frame record_timing_frame
           split: option.splits recv.splits sum.splits if_splits)

lemma hop_timing_grows:
  assumes "hop e cid pkt_base i role prev s = (r, s')"
  shows "\<exists>new. timing_log s' k = timing_log s k @ new"
  using assms record_timing_grows [of _ _ _ "s\<lparr>effects := x\<rparr>" k for x] record_timing_grows [of _ _ _ s k]
  by (auto simp: hop_def broadcast_undisturbed Let_def broadcast_frame 
           split: option.splits recv.splits sum.splits if_splits)

lemma hop_broadcasts:
  assumes "hop e cid pkt_base i role prev s = (None, s')"
  shows "broadcasts (effects s') =
           broadcasts (effects s)
             @ map (message ''relay_log'') (hop_log e (agents s) (hop_packet cid pkt_base i prev) i role)"
  using assms
  by (auto simp: hop_def broadcast_undisturbed hop_log_def Let_def broadcasts_broadcast record_timing_frame broadcasts_append
           split: option.splits recv.splits sum.splits if_splits)

lemma hops_frame:
  assumes "hops e cid pkt_base irs prev s = (r, s')"
  shows "agents s' = agents s \<and> circuit_counter s' = circuit_counter s"
  using assms
proof (induction irs arbitrary: prev s)
  case Nil
  then show ?case by simp
next
  case (Cons ir irs)
  obtain i role where ir: "ir = (i, role)" by (cases ir)
  obtain r1 s1 where h: "hop e cid pkt_base i role prev s = (r1, s1)" by (cases "hop e cid pkt_base i role prev s")
  show ?case
  proof (cases r1)
    case None
    with Cons.prems ir h have "hops e cid pkt_base irs (hop_address role) s1 = (r, s')" by simp
    from Cons.IH [OF this] hop_frame [OF h] show ?thesis by simp
  next
    case (Some err)
    with Cons.prems ir h have "s' = s1" by simp
    with hop_frame [OF h] show ?thesis by simp
  qed
qed

lemma hops_timing_grows:
  assumes "hops e cid pkt_base irs prev s = (r, s')"
  shows "\<exists>new. timing_log s' k = timing_log s k @ new"
  using assms
proof (induction irs arbitrary: prev s)
  case Nil
  then show ?case by simp
next
  case (Cons ir irs)
  obtain i role where ir: "ir = (i, role)" by (cases ir)
  obtain r1 s1 where h: "hop e cid pkt_base i role prev s = (r1, s1)" by (cases "hop e cid pkt_base i role prev s")
  from hop_timing_grows [OF h] obtain new1 where n1: "timing_log s1 k = timing_log s k @ new1" by blast
  show ?case
  proof (cases r1)
    case None
    with Cons.prems ir h have "hops e cid pkt_base irs (hop_address role) s1 = (r, s')" by simp
    from Cons.IH [OF this] n1 show ?thesis by auto
  next
    case (Some err)
    with Cons.prems ir h have "s' = s1" by simp
    with n1 show ?thesis by simp
  qed
qed

lemma hops_broadcasts:
  assumes "hops e cid pkt_base irs prev s = (None, s')"
  shows "broadcasts (effects s') =
           broadcasts (effects s)
             @ map (message ''relay_log'') (hop_logs e (agents s) cid pkt_base irs prev)"
  using assms
proof (induction irs arbitrary: prev s)
  case Nil
  then show ?case by simp
next
  case (Cons ir irs)
  obtain i role where ir: "ir = (i, role)" by (cases ir)
  obtain r1 s1 where h: "hop e cid pkt_base i role prev s = (r1, s1)" by (cases "hop e cid pkt_base i role prev s")
  from Cons.prems ir h have r1: "r1 = None" by (cases r1) simp_all
  with Cons.prems ir h have rest: "hops e cid pkt_base irs (hop_address role) s1 = (None, s')" by simp
  from hop_frame(1) [OF h] have ag: "agents s1 = agents s" .
  from Cons.IH [OF rest] hop_broadcasts [OF h [unfolded r1]] ag ir
  show ?case by simp
qed

lemma hop_log_length: "length (hop_log e ags pkt i role) \<le> 1"
  by (simp add: hop_log_def split: option.splits recv.splits sum.splits)

subsection \<open>The visibility rules on the two paths\<close>

lemma thn_Inr_iff: "thn m f = Inr y \<longleftrightarrow> (\<exists>x. m = Inr x \<and> f x = Inr y)"
  by (cases m) (simp_all add: thn_def)

lemmas entry_eval =
  synthesize_log_def live_log_def RelayAgent_init_def ROLE_VISIBILITY_def NEXT_HOP_def
  build_log_entry_def subscript_def dict_get_def thn_def field_def minus_one_def

lemma synthesize_log_Inr:
  assumes "synthesize_log now role pkt = Inr synth"
  obtains kvs src dst cid lay n where "pkt = JObj kvs" "map_of kvs ''src'' = Some src"
    "map_of kvs ''dst'' = Some dst" "map_of kvs ''circuit_id'' = Some cid"
    "map_of kvs ''layers'' = Some lay" "minus_one lay = Inr n"
  using assms
  by (auto simp: synthesize_log_def thn_Inr_iff subscript_def split: json.splits option.splits)

text \<open>
  C1, as stated, fails: on the packet of the first hop the synthesized entry of guard
  names the next hop \<open>middle-relay\<close> where the live entry names it \<open>middle\<close>, and on the
  packet of the second hop the synthesized entry of middle gives the label
  \<open>guard-node\<close> as \<open>from_ip\<close> where the live entry gives the address of the previous
  hop.
\<close>

theorem synthesized_differs_from_live:
  "field ''to_ip'' (synthesize_log ''12:00:00'' ''guard'' first_packet) = Some (JStr ''middle-relay'')
   \<and> field ''to_ip'' (live_log ''12:00:00'' ''guard'' ''localhost:8765'' ''10.0.1.2'' first_packet)
       = Some (JStr ''middle'')
   \<and> field ''from_ip'' (synthesize_log ''12:00:00'' ''middle'' second_packet) = Some (JStr ''guard-node'')
   \<and> field ''from_ip'' (live_log ''12:00:00'' ''middle'' ''localhost:8765'' ''10.0.2.2'' second_packet)
       = Some (JStr ''10.0.1.2'')"
  by (simp add: entry_eval first_packet_def second_packet_def hop_packet_def pkt_base_of_def
        hop_address_def quiet_env_def)

text \<open>
  C1, amended: for every role in guard, middle, exit and every packet on which
  \<^verbatim>\<open>synthesize_log\<close> returns an entry, \<^verbatim>\<open>build_log_entry\<close> of an agent of that role
  returns an entry too, and the two agree in \<open>from_known\<close>, \<open>to_known\<close> and
  \<open>layers_remaining\<close>, in \<open>from_ip\<close> for guard and in \<open>to_ip\<close> for exit. The other
  addresses are labels on the synthesis path: \<open>to_ip\<close> is \<open>middle-relay\<close> for guard
  and \<open>exit-node\<close> for middle (live: \<open>middle\<close>, \<open>exit\<close>), \<open>from_ip\<close> is
  \<open>guard-node\<close> for middle and \<open>middle-relay\<close> for exit (live: the packet's
  \<open>prev_hop\<close>, or \<open>???\<close> without one).
\<close>

theorem synthesized_entry_vs_live_entry:
  assumes "role \<in> set roles" and "synthesize_log now role pkt = Inr synth"
  shows "\<exists>live. live_log now' role coordinator my_ip pkt = Inr live
     \<and> field ''from_known'' (Inr live) = field ''from_known'' (Inr synth)
     \<and> field ''to_known'' (Inr live) = field ''to_known'' (Inr synth)
     \<and> field ''layers_remaining'' (Inr live) = field ''layers_remaining'' (Inr synth)
     \<and> (role = ''guard'' \<longrightarrow> field ''from_ip'' (Inr live) = field ''from_ip'' (Inr synth))
     \<and> (role = ''exit'' \<longrightarrow> field ''to_ip'' (Inr live) = field ''to_ip'' (Inr synth))
     \<and> (role = ''guard'' \<longrightarrow> field ''to_ip'' (Inr synth) = Some (JStr ''middle-relay'')
                            \<and> field ''to_ip'' (Inr live) = Some (JStr ''middle''))
     \<and> (role = ''middle'' \<longrightarrow> field ''to_ip'' (Inr synth) = Some (JStr ''exit-node'')
                            \<and> field ''to_ip'' (Inr live) = Some (JStr ''exit'')
                            \<and> field ''from_ip'' (Inr synth) = Some (JStr ''guard-node'')
                            \<and> map_option Inr (field ''from_ip'' (Inr live))
                                = Some (dict_get pkt ''prev_hop'' (JStr ''???'')))
     \<and> (role = ''exit'' \<longrightarrow> field ''from_ip'' (Inr synth) = Some (JStr ''middle-relay'')
                            \<and> map_option Inr (field ''from_ip'' (Inr live))
                                = Some (dict_get pkt ''prev_hop'' (JStr ''???'')))"
proof -
  from assms(2) obtain kvs src dst cid lay n where p: "pkt = JObj kvs" "map_of kvs ''src'' = Some src"
    "map_of kvs ''dst'' = Some dst" "map_of kvs ''circuit_id'' = Some cid"
    "map_of kvs ''layers'' = Some lay" "minus_one lay = Inr n"
    by (rule synthesize_log_Inr)
  from assms(1) consider "role = ''guard''" | "role = ''middle''" | "role = ''exit''"
    by (auto simp: roles_def)
  then show ?thesis
  proof cases
    case 1
    with assms(2) p show ?thesis
      by (auto simp: synthesize_log_def live_log_def RelayAgent_init_def ROLE_VISIBILITY_def
            NEXT_HOP_def build_log_entry_def subscript_def dict_get_def thn_def field_def)
  next
    case 2
    with assms(2) p show ?thesis
      by (auto simp: synthesize_log_def live_log_def RelayAgent_init_def ROLE_VISIBILITY_def
            NEXT_HOP_def build_log_entry_def subscript_def dict_get_def thn_def field_def)
  next
    case 3
    with assms(2) p show ?thesis
      by (auto simp: synthesize_log_def live_log_def RelayAgent_init_def ROLE_VISIBILITY_def
            NEXT_HOP_def build_log_entry_def subscript_def dict_get_def thn_def field_def)
  qed
qed

text \<open>The amended C1 at the guard and the packet of the first hop.\<close>

theorem synthesized_entry_vs_live_entry_witness:
  "''guard'' \<in> set roles
   \<and> synthesize_log ''12:00:00'' ''guard'' first_packet
       = Inr (JObj [(''relay'', JStr ''guard''), (''circuit_id'', JStr ''C001''),
                    (''ts'', JStr ''12:00:00''), (''from_ip'', JStr ''10.3.0.5''),
                    (''to_ip'', JStr ''middle-relay''), (''from_known'', JBool True),
                    (''to_known'', JBool True), (''layers_remaining'', JNum 2),
                    (''synthesized'', JBool True)])
   \<and> (\<exists>live. live_log ''12:00:01'' ''guard'' ''localhost:8765'' ''10.0.1.2'' first_packet = Inr live
         \<and> field ''from_known'' (Inr live) = Some (JBool True)
         \<and> field ''to_known'' (Inr live) = Some (JBool True)
         \<and> field ''layers_remaining'' (Inr live) = Some (JNum 2)
         \<and> field ''from_ip'' (Inr live) = Some (JStr ''10.3.0.5'')
         \<and> field ''to_ip'' (Inr live) = Some (JStr ''middle''))"
proof -
  have r: "''guard'' \<in> set roles"
    by (simp add: roles_def)
  have s: "synthesize_log ''12:00:00'' ''guard'' first_packet
       = Inr (JObj [(''relay'', JStr ''guard''), (''circuit_id'', JStr ''C001''),
                    (''ts'', JStr ''12:00:00''), (''from_ip'', JStr ''10.3.0.5''),
                    (''to_ip'', JStr ''middle-relay''), (''from_known'', JBool True),
                    (''to_known'', JBool True), (''layers_remaining'', JNum 2),
                    (''synthesized'', JBool True)])"
    by (simp add: synthesize_log_def first_packet_def hop_packet_def pkt_base_of_def
          subscript_def thn_def minus_one_def)
  from synthesized_entry_vs_live_entry [OF r s, of "''12:00:01''" "''localhost:8765''" "''10.0.1.2''"]
  obtain live where
    "live_log ''12:00:01'' ''guard'' ''localhost:8765'' ''10.0.1.2'' first_packet = Inr live"
    "field ''from_known'' (Inr live) = Some (JBool True)"
    "field ''to_known'' (Inr live) = Some (JBool True)"
    "field ''layers_remaining'' (Inr live) = Some (JNum 2)"
    "field ''from_ip'' (Inr live) = Some (JStr ''10.3.0.5'')"
    "field ''to_ip'' (Inr live) = Some (JStr ''middle'')"
    by (auto simp: field_def)
  with r s show ?thesis by blast
qed

text \<open>
  C5, as stated, fails on the synthesis path: \<^verbatim>\<open>synthesize_log\<close> raises KeyError on
  the two example packets, which carry no circuit id, and with a circuit id added it
  gives \<open>middle-relay\<close> as the guard's \<open>to_ip\<close> (claimed: \<open>middle\<close>) and as the exit's
  \<open>from_ip\<close> (claimed: 10.0.2.2).
\<close>

theorem examples_on_the_synthesis_path:
  "synthesize_log ''12:00:00'' ''guard'' guard_example = Inl (KeyError ''circuit_id'')
   \<and> synthesize_log ''12:00:00'' ''exit'' exit_example = Inl (KeyError ''circuit_id'')
   \<and> field ''to_ip'' (synthesize_log ''12:00:00'' ''guard'' (with_circuit_id ''C001'' guard_example))
       = Some (JStr ''middle-relay'')
   \<and> field ''from_ip'' (synthesize_log ''12:00:00'' ''exit'' (with_circuit_id ''C001'' exit_example))
       = Some (JStr ''middle-relay'')"
  by (simp add: synthesize_log_def guard_example_def exit_example_def with_circuit_id_def
      subscript_def thn_def field_def minus_one_def)

text \<open>
  C5, amended: on the live path, guard and the packet \<open>{src: 10.3.0.5, dst: 93.184.10.2,
  layers: 3}\<close> give \<open>from_ip\<close> 10.3.0.5, \<open>to_ip\<close> middle, both known, 2 layers remaining;
  exit and the same packet with \<open>layers: 1\<close> and \<open>prev_hop: 10.0.2.2\<close> give \<open>from_ip\<close>
  10.0.2.2, \<open>to_ip\<close> 93.184.10.2, both known, 0 layers remaining. On the synthesis
  path, for the same packets carrying a circuit id, the entries are the same except
  that the guard's \<open>to_ip\<close> and the exit's \<open>from_ip\<close> are the label \<open>middle-relay\<close>.
\<close>

theorem examples_on_both_paths:
  "named_fields (live_log now ''guard'' coordinator my_ip guard_example)
     = [Some (JStr ''10.3.0.5''), Some (JStr ''middle''), Some (JBool True), Some (JBool True),
        Some (JNum 2)]
   \<and> named_fields (live_log now ''exit'' coordinator my_ip exit_example)
     = [Some (JStr ''10.0.2.2''), Some (JStr ''93.184.10.2''), Some (JBool True), Some (JBool True),
        Some (JNum 0)]
   \<and> named_fields (synthesize_log now ''guard'' (with_circuit_id cid guard_example))
     = [Some (JStr ''10.3.0.5''), Some (JStr ''middle-relay''), Some (JBool True), Some (JBool True),
        Some (JNum 2)]
   \<and> named_fields (synthesize_log now ''exit'' (with_circuit_id cid exit_example))
     = [Some (JStr ''middle-relay''), Some (JStr ''93.184.10.2''), Some (JBool True),
        Some (JBool True), Some (JNum 0)]"
  by (simp add: named_fields_def entry_eval guard_example_def exit_example_def with_circuit_id_def)

subsection \<open>Best-effort delivery\<close>

text \<open>
  A broadcast that no other task disturbs raises nothing, leaves the observer set
  without exactly the failing observers, and sends the event once to every observer
  that does not fail.
\<close>

lemma delivered_best_effort:
  "broadcast_to_browsers fails undisturbed msg s = (None, delivered fails msg s)
   \<and> browsers (delivered fails msg s) = filter (\<lambda>w. \<not> fails w) (browsers s)
   \<and> set (browsers (delivered fails msg s)) = set (browsers s) - {w. fails w}
   \<and> effects (delivered fails msg s)
       = effects s @ Broadcast msg # map (\<lambda>w. Sent w msg) (filter (\<lambda>w. \<not> fails w) (browsers s))"
  by (auto simp: broadcast_undisturbed delivered_eq)

text \<open>
  C8 does not hold of the code when an observer disconnects during the broadcast. With
  three observers, the send to the first fails; while the send to the second is awaited,
  the handler of the first discards it from the set. The loop then asks the set for its
  next member and \<^verbatim>\<open>RuntimeError\<close> leaves \<^verbatim>\<open>broadcast_to_browsers\<close>: the third
  observer, which does not fail, is not sent the event. The same broadcast undisturbed
  returns, with the event sent to the second and the third observer.
\<close>

theorem disconnect_during_broadcast_raises:
  "broadcast_to_browsers (\<lambda>w. w = 1) first_leaves (circuit_done ''C001'') three_watching
     = (Some RuntimeError,
        three_watching\<lparr>browsers := [2, 3],
          effects := [Broadcast (circuit_done ''C001''), Sent 2 (circuit_done ''C001'')]\<rparr>)
   \<and> broadcast_to_browsers (\<lambda>w. w = 1) undisturbed (circuit_done ''C001'') three_watching
     = (None,
        three_watching\<lparr>browsers := [2, 3],
          effects := [Broadcast (circuit_done ''C001''), Sent 2 (circuit_done ''C001''),
                      Sent 3 (circuit_done ''C001'')]\<rparr>)"
  by (simp add: broadcast_to_browsers_def first_leaves_def undisturbed_def apply_change_def
        three_watching_def initial_state_def)

subsection \<open>One circuit\<close>

lemmas circuit_eval =
  send_circuit_def new_circuit_id_def circuit_src_def circuit_dst_def pkt_base_of_def rand_ip_def
  zfill_def truthy_def roles_def hop_def hop_packet_def hop_address_def record_timing_def
  broadcast_undisturbed delivered_eq circuit_start_def circuit_done_def message_def
  key_eq_def key_of_def
  synthesize_log_def subscript_def dict_get_def thn_def minus_one_def Let_def

lemma str_nat_digit: "n < 10 \<Longrightarrow> str_nat n = [''0123456789'' ! n]"
  by (simp add: str_nat.simps)

lemma str_nat_10: "str_nat 10 = ''10''"
  by (simp add: str_nat.simps [of 10] str_nat_digit)

lemma send_circuit_split:
  assumes "send_circuit e src_ip dst_ip s = (r, s')"
  obtains s3 where
    "hops e (fst (new_circuit_id s))
       (pkt_base_of e (fst (new_circuit_id s)) (circuit_src e src_ip) (circuit_dst e dst_ip))
       (enumerate 0 roles) (circuit_src e src_ip)
       (delivered (browser_fails e 0)
          (circuit_start (fst (new_circuit_id s)) (circuit_src e src_ip) (circuit_dst e dst_ip))
          (snd (new_circuit_id s))) = (r, s3)"
    "s' = (case r of None \<Rightarrow> delivered (browser_fails e 4) (circuit_done (fst (new_circuit_id s))) s3
           | Some err \<Rightarrow> s3)"
  using assms
  by (auto simp: send_circuit_def Let_def broadcast_undisturbed split: prod.splits option.splits)

lemma new_circuit_id_frame:
  "agents (snd (new_circuit_id s)) = agents s"
  "effects (snd (new_circuit_id s)) = effects s"
  "timing_log (snd (new_circuit_id s)) = timing_log s"
  "browsers (snd (new_circuit_id s)) = browsers s"
  "circuit_counter (snd (new_circuit_id s)) = circuit_counter s + 1"
  by (simp_all add: new_circuit_id_def Let_def)

lemma message_types:
  "has_type ty (message ty' d) = (ty = ty')"
  by (auto simp: has_type_def message_def dict_get_def)

lemma filter_relay_logs:
  "ty \<noteq> ''relay_log'' \<Longrightarrow> filter (has_type ty) (map (message ''relay_log'') logs) = []"
  by (induction logs) (simp_all add: message_types)

text \<open>
  C4: when a run of \<^verbatim>\<open>send_circuit\<close> returns, the events it has broadcast are
  \<^verbatim>\<open>circuit_start\<close>, then the \<^verbatim>\<open>relay_log\<close> events of the hops, at most one for each
  hop and in the order guard, middle, exit, then \<^verbatim>\<open>circuit_done\<close>: exactly one event of
  type \<^verbatim>\<open>circuit_start\<close>, the first, and exactly one of type \<^verbatim>\<open>circuit_done\<close>, the
  last, whichever hops were live, synthesized or skipped.
\<close>

theorem circuit_events_in_order:
  assumes "send_circuit e src_ip dst_ip s = (None, s')"
  shows "let cid = fst (new_circuit_id s);
             src = circuit_src e src_ip;
             dst = circuit_dst e dst_ip;
             pkt_base = pkt_base_of e cid src dst;
             l0 = hop_log e (agents s) (hop_packet cid pkt_base 0 src) 0 ''guard'';
             l1 = hop_log e (agents s) (hop_packet cid pkt_base 1 (hop_address ''guard'')) 1 ''middle'';
             l2 = hop_log e (agents s) (hop_packet cid pkt_base 2 (hop_address ''middle'')) 2 ''exit''
         in \<exists>new. broadcasts (effects s') = broadcasts (effects s) @ new
              \<and> new = circuit_start cid src dst # map (message ''relay_log'') (l0 @ l1 @ l2)
                        @ [circuit_done cid]
              \<and> length l0 \<le> 1 \<and> length l1 \<le> 1 \<and> length l2 \<le> 1
              \<and> filter (has_type ''circuit_start'') new = [circuit_start cid src dst]
              \<and> filter (has_type ''circuit_done'') new = [circuit_done cid]"
proof -
  from assms obtain s3 where
    h: "hops e (fst (new_circuit_id s))
       (pkt_base_of e (fst (new_circuit_id s)) (circuit_src e src_ip) (circuit_dst e dst_ip))
       (enumerate 0 roles) (circuit_src e src_ip)
       (delivered (browser_fails e 0)
          (circuit_start (fst (new_circuit_id s)) (circuit_src e src_ip) (circuit_dst e dst_ip))
          (snd (new_circuit_id s))) = (None, s3)"
    and s': "s' = delivered (browser_fails e 4) (circuit_done (fst (new_circuit_id s))) s3"
    by (rule send_circuit_split) simp
  have en: "enumerate 0 roles = [(0, ''guard''), (1, ''middle''), (2, ''exit'')]"
    by (simp add: roles_def)
  from hops_broadcasts [OF h] s'
  have "broadcasts (effects s') = broadcasts (effects s) @
     (circuit_start (fst (new_circuit_id s)) (circuit_src e src_ip) (circuit_dst e dst_ip)
      # map (message ''relay_log'')
          (hop_logs e (agents s) (fst (new_circuit_id s))
             (pkt_base_of e (fst (new_circuit_id s)) (circuit_src e src_ip) (circuit_dst e dst_ip))
             (enumerate 0 roles) (circuit_src e src_ip))
      @ [circuit_done (fst (new_circuit_id s))])"
    by (simp add: broadcasts_broadcast broadcast_frame new_circuit_id_frame)
  then show ?thesis
    unfolding Let_def en
    by (simp add: hop_log_length [simplified] filter_relay_logs message_types circuit_start_def circuit_done_def)
qed

text \<open>
  C4 on a circuit whose live guard times out: a start, the synthesized entries of middle
  and exit, a done.
\<close>

theorem circuit_events_in_order_witness:
  "send_circuit quiet_env JNull JNull guard_only
     = (None, snd (send_circuit quiet_env JNull JNull guard_only))
   \<and> map (\<lambda>m. dict_get m ''type'' JNull)
        (broadcasts (effects (snd (send_circuit quiet_env JNull JNull guard_only))))
       = [Inr (JStr ''circuit_start''), Inr (JStr ''relay_log''), Inr (JStr ''relay_log''),
          Inr (JStr ''circuit_done'')]"
proof -
  have "fst (send_circuit quiet_env JNull JNull guard_only) = None"
    by (simp add: circuit_eval quiet_env_def guard_only_def initial_state_def)
  then have h: "send_circuit quiet_env JNull JNull guard_only
     = (None, snd (send_circuit quiet_env JNull JNull guard_only))"
    by (simp add: prod_eq_iff)
  have e: "effects guard_only = []" "agents guard_only = [(JStr ''guard'', 7)]"
    by (simp_all add: guard_only_def initial_state_def)
  from circuit_events_in_order [OF h] h show ?thesis
    by (simp add: Let_def e hop_log_def key_eq_def key_of_def quiet_env_def synthesize_log_def hop_packet_def
          pkt_base_of_def subscript_def thn_def minus_one_def hop_address_def
          circuit_start_def circuit_done_def message_def dict_get_def)
qed





text \<open>
  An answer that parses to a dict of another type than \<^verbatim>\<open>log\<close> leaves the hop as a
  timeout does.
\<close>

lemma hop_wrong_type_like_timeout:
  assumes "agent_recv e i = Parsed log_msg" and "dict_get log_msg ''type'' JNull = Inr ty"
    and "ty \<noteq> JStr ''log''"
  shows "hop e cid pkt_base i role prev s
           = hop (e\<lparr>agent_recv := (agent_recv e)(i := TimedOut)\<rparr>) cid pkt_base i role prev s"
  using assms by (simp add: hop_def broadcast_undisturbed Let_def split: option.splits sum.splits)

text \<open>
  C3 does not hold of the code for an answer that is not JSON: with a live guard that
  answers the first packet with such text, \<^verbatim>\<open>JSONDecodeError\<close> leaves
  \<^verbatim>\<open>send_circuit\<close>, only \<^verbatim>\<open>circuit_start\<close> has been broadcast, and no hop after the
  first runs; with a guard that times out, in the same state, the run returns and its
  fourth and last broadcast is \<^verbatim>\<open>circuit_done\<close>.
\<close>

theorem unparseable_reply_aborts_circuit:
  "fst (send_circuit garbled_env JNull JNull guard_only) = Some JSONDecodeError
   \<and> broadcasts (effects (snd (send_circuit garbled_env JNull JNull guard_only)))
       = [circuit_start ''C001'' (JStr ''10.3.0.5'') (JStr ''93.184.10.2'')]
   \<and> fst (send_circuit quiet_env JNull JNull guard_only) = None
   \<and> map (has_type ''circuit_done'') (broadcasts (effects (snd (send_circuit quiet_env JNull JNull guard_only))))
       = [False, False, False, True]"
  by (simp add: circuit_eval garbled_env_def quiet_env_def guard_only_def initial_state_def
        str_nat_digit str_nat_10 has_type_def numeral_2_eq_2)

subsection \<open>Timing samples\<close>

lemma send_circuit_frame:
  assumes "send_circuit e src_ip dst_ip s = (r, s')"
  shows "agents s' = agents s" and "circuit_counter s' = circuit_counter s + 1"
proof -
  from assms obtain s3 where
    h: "hops e (fst (new_circuit_id s))
       (pkt_base_of e (fst (new_circuit_id s)) (circuit_src e src_ip) (circuit_dst e dst_ip))
       (enumerate 0 roles) (circuit_src e src_ip)
       (delivered (browser_fails e 0)
          (circuit_start (fst (new_circuit_id s)) (circuit_src e src_ip) (circuit_dst e dst_ip))
          (snd (new_circuit_id s))) = (r, s3)"
    and s': "s' = (case r of None \<Rightarrow> delivered (browser_fails e 4) (circuit_done (fst (new_circuit_id s))) s3
           | Some err \<Rightarrow> s3)"
    by (rule send_circuit_split)
  from hops_frame [OF h] s'
  show "agents s' = agents s" and "circuit_counter s' = circuit_counter s + 1"
    by (simp_all add: broadcast_frame new_circuit_id_frame split: option.splits)
qed

lemma send_circuit_timing_grows:
  assumes "send_circuit e src_ip dst_ip s = (r, s')"
  shows "\<exists>new. timing_log s' k = timing_log s k @ new"
proof -
  from assms obtain s3 where
    h: "hops e (fst (new_circuit_id s))
       (pkt_base_of e (fst (new_circuit_id s)) (circuit_src e src_ip) (circuit_dst e dst_ip))
       (enumerate 0 roles) (circuit_src e src_ip)
       (delivered (browser_fails e 0)
          (circuit_start (fst (new_circuit_id s)) (circuit_src e src_ip) (circuit_dst e dst_ip))
          (snd (new_circuit_id s))) = (r, s3)"
    and s': "s' = (case r of None \<Rightarrow> delivered (browser_fails e 4) (circuit_done (fst (new_circuit_id s))) s3
           | Some err \<Rightarrow> s3)"
    by (rule send_circuit_split)
  from hops_timing_grows [OF h, of k] s'
  show ?thesis
    by (auto simp: broadcast_frame new_circuit_id_frame split: option.splits)
qed

lemma last_n_length: "length (last_n n xs) \<le> n"
  by (simp add: last_n_def)

lemma last_n_suffix: "\<exists>older. xs = older @ last_n n xs"
  by (metis append_take_drop_id last_n_def)

lemma last_n_exact: "length (last_n n xs) = min n (length xs)"
  by (simp add: last_n_def)

text \<open>
  C2, amended: a hop of a terminal role that forwards a log entry appends one sample to
  the list of its role and removes nothing; every other list, and the list of a hop
  that forwards nothing, is unchanged. The list is not trimmed. What is bounded is the
  sample that \<^verbatim>\<open>run_ai_correlation\<close> hands to the analysis: for each terminal role
  it is the last 10 entries of the list, and the whole list when that has fewer.
\<close>

theorem timing_log_appended_window_trimmed:
  assumes "hop e cid pkt_base i role prev s = (r, s')"
  shows "timing_log s' k = timing_log s k @
           (if k = role \<and> role \<in> {''guard'', ''exit''}
               \<and> hop_log e (agents s) (hop_packet cid pkt_base i prev) i role \<noteq> []
            then [timing_sample (sample_ts e i) cid] else [])
     \<and> correlation_ctx s'
           = JObj [(''guard_events'', JArr (last_n 10 (timing_log s' ''guard''))),
                   (''exit_events'', JArr (last_n 10 (timing_log s' ''exit''))),
                   (''circuit_count'', JNum (int (circuit_counter s')))]
     \<and> last_n 10 (timing_log s' k) = drop (length (timing_log s' k) - 10) (timing_log s' k)
     \<and> length (last_n 10 (timing_log s' k)) = min 10 (length (timing_log s' k))
     \<and> (\<exists>older. timing_log s' k = older @ last_n 10 (timing_log s' k))"
proof -
  have "timing_log s' k = timing_log s k @
           (if k = role \<and> role \<in> {''guard'', ''exit''}
               \<and> hop_log e (agents s) (hop_packet cid pkt_base i prev) i role \<noteq> []
            then [timing_sample (sample_ts e i) cid] else [])"
    using assms
    by (auto simp: hop_def hop_log_def Let_def broadcast_undisturbed broadcast_frame
             record_timing_def timing_sample_def
           split: option.splits recv.splits sum.splits if_splits)
  moreover have "correlation_ctx s'
           = JObj [(''guard_events'', JArr (last_n 10 (timing_log s' ''guard''))),
                   (''exit_events'', JArr (last_n 10 (timing_log s' ''exit''))),
                   (''circuit_count'', JNum (int (circuit_counter s')))]"
    by (simp add: correlation_ctx_def)
  moreover have "last_n 10 (timing_log s' k) = drop (length (timing_log s' k) - 10) (timing_log s' k)"
    by (simp add: last_n_def)
  moreover note last_n_exact [of 10 "timing_log s' k"] last_n_suffix [of "timing_log s' k" 10]
  ultimately show ?thesis by blast
qed

text \<open>The amended C2 on the synthesized guard hop of a twelfth circuit: the list of guard
  has 12 samples afterwards, and the analysis is handed the last 10 of them.\<close>

theorem timing_log_appended_window_trimmed_witness:
  "hop quiet_env ''C012'' (pkt_base_of quiet_env ''C012'' (JStr ''10.3.0.5'') (JStr ''93.184.10.2''))
       0 ''guard'' (JStr ''10.3.0.5'') after_eleven
     = (None, snd (hop quiet_env ''C012''
                     (pkt_base_of quiet_env ''C012'' (JStr ''10.3.0.5'') (JStr ''93.184.10.2''))
                     0 ''guard'' (JStr ''10.3.0.5'') after_eleven))
   \<and> timing_log (snd (hop quiet_env ''C012''
                     (pkt_base_of quiet_env ''C012'' (JStr ''10.3.0.5'') (JStr ''93.184.10.2''))
                     0 ''guard'' (JStr ''10.3.0.5'') after_eleven)) ''guard''
       = eleven_samples @ [timing_sample 0 ''C012'']
   \<and> last_n 10 (timing_log (snd (hop quiet_env ''C012''
                     (pkt_base_of quiet_env ''C012'' (JStr ''10.3.0.5'') (JStr ''93.184.10.2''))
                     0 ''guard'' (JStr ''10.3.0.5'') after_eleven)) ''guard'')
       = drop 2 eleven_samples @ [timing_sample 0 ''C012'']"
proof -
  have "fst (hop quiet_env ''C012''
               (pkt_base_of quiet_env ''C012'' (JStr ''10.3.0.5'') (JStr ''93.184.10.2''))
               0 ''guard'' (JStr ''10.3.0.5'') after_eleven) = None"
    by (simp add: hop_def broadcast_undisturbed Let_def after_eleven_def initial_state_def
          quiet_env_def synthesize_log_def hop_packet_def pkt_base_of_def subscript_def thn_def
          minus_one_def)
  then have h: "hop quiet_env ''C012''
       (pkt_base_of quiet_env ''C012'' (JStr ''10.3.0.5'') (JStr ''93.184.10.2''))
       0 ''guard'' (JStr ''10.3.0.5'') after_eleven
     = (None, snd (hop quiet_env ''C012''
                     (pkt_base_of quiet_env ''C012'' (JStr ''10.3.0.5'') (JStr ''93.184.10.2''))
                     0 ''guard'' (JStr ''10.3.0.5'') after_eleven))"
    by (simp add: prod_eq_iff)
  have l: "length eleven_samples = 11"
    by (simp add: eleven_samples_def)
  have a: "timing_log after_eleven ''guard'' = eleven_samples" "agents after_eleven = []"
    by (simp_all add: after_eleven_def initial_state_def)
  have g: "hop_log quiet_env [] (hop_packet ''C012''
             (pkt_base_of quiet_env ''C012'' (JStr ''10.3.0.5'') (JStr ''93.184.10.2''))
             0 (JStr ''10.3.0.5'')) 0 ''guard'' \<noteq> []"
    by (simp add: hop_log_def quiet_env_def synthesize_log_def hop_packet_def pkt_base_of_def
          subscript_def thn_def minus_one_def)
  have t: "sample_ts quiet_env 0 = 0"
    by (simp add: quiet_env_def)
  from timing_log_appended_window_trimmed [OF h, of "''guard''"] h a g l t show ?thesis
    by (simp add: last_n_def)
qed

lemma quiet_circuit:
  assumes "agents s = []"
  shows "agents (snd (send_circuit quiet_env JNull JNull s)) = []"
    and "length (timing_log (snd (send_circuit quiet_env JNull JNull s)) ''guard'')
           = length (timing_log s ''guard'') + 1"
  using assms
  by (simp_all add: circuit_eval quiet_env_def)

lemma quiet_circuits:
  assumes "agents s = []"
  shows "length (timing_log (run (replicate n (Circuit quiet_env JNull JNull)) s) ''guard'')
           = length (timing_log s ''guard'') + n"
  using assms
proof (induction n arbitrary: s)
  case 0
  then show ?case by simp
next
  case (Suc n)
  from Suc.IH [OF quiet_circuit(1) [OF Suc.prems]] quiet_circuit(2) [OF Suc.prems]
  show ?case by simp
qed

text \<open>
  C2, as stated, fails: after 11 circuits without agents the list of guard holds 11
  samples.
\<close>

theorem timing_log_exceeds_ten:
  "length (timing_log (run (replicate 11 (Circuit quiet_env JNull JNull)) initial_state) ''guard'') = 11"
  using quiet_circuits [of initial_state 11]
  by (simp add: initial_state_def)

subsection \<open>Endpoint registration\<close>

lemma fst_compared: "map fst (compared kvs) = map (\<lambda>kv. key_of (fst kv)) kvs"
  by (simp add: compared_def)

lemma items_get_compared: "items_get kvs k = map_of (compared kvs) (key_of k)"
  by (induction kvs k rule: items_get.induct) (auto simp: compared_def key_eq_def)

lemma compared_items_set: "compared (items_set k v kvs) = AList.update (key_of k) v (compared kvs)"
  by (induction k v kvs rule: items_set.induct) (auto simp: compared_def key_eq_def)

lemma compared_items_del: "compared (items_del k kvs) = AList.delete (key_of k) (compared kvs)"
  by (induction kvs) (auto simp: compared_def items_del_def key_eq_def)

lemma items_get_set:
  "items_get (items_set k v kvs) k' = (if key_eq k' k then Some v else items_get kvs k')"
  by (simp add: items_get_compared compared_items_set update_conv' key_eq_def)

lemma items_get_del:
  "items_get (items_del k kvs) k' = (if key_eq k' k then None else items_get kvs k')"
  by (simp add: items_get_compared compared_items_del delete_conv' key_eq_def)

lemma items_set_distinct:
  "distinct (map fst (compared kvs)) \<Longrightarrow> distinct (map fst (compared (items_set k v kvs)))"
  by (simp add: compared_items_set distinct_update)

lemma items_del_distinct:
  "distinct (map fst (compared kvs)) \<Longrightarrow> distinct (map fst (compared (items_del k kvs)))"
  by (simp add: compared_items_del distinct_delete)

lemma handler_open_register:
  assumes "hashable role"
  shows "handler_open fails status_ok (Message (register_message role ip)) ws s
           = (None, AsAgent role,
              delivered fails (agent_connected role ip)
                (s\<lparr>agents := items_set role ws (agents s)\<rparr>))"
  using assms
  by (simp add: handler_open_def register_message_def dict_get_def subscript_def
        broadcast_undisturbed)

lemma handler_open_agents:
  "agents (snd (snd (handler_open fails status_ok fst_msg ws s))) = agents s
   \<or> (\<exists>role. agents (snd (snd (handler_open fails status_ok fst_msg ws s)))
                = items_set role ws (agents s))"
  by (auto simp: handler_open_def Let_def broadcast_undisturbed broadcast_frame
           split: first.splits sum.splits)

lemma handler_close_agents:
  "agents (handler_close b ws s) = agents s
   \<or> (\<exists>role. agents (handler_close b ws s) = items_del role (agents s))"
  by (auto simp: handler_close_def split: bound.splits)

lemma apply_event_distinct:
  assumes "distinct (map fst (compared (agents s)))"
  shows "distinct (map fst (compared (agents (apply_event ev s))))"
proof (cases ev)
  case (Opened fails status_ok fst_msg ws)
  with assms handler_open_agents [of fails status_ok fst_msg ws s] show ?thesis
    by (auto simp: items_set_distinct)
next
  case (Closed b ws)
  with assms handler_close_agents [of b ws s] show ?thesis
    by (auto simp: items_del_distinct)
next
  case (Circuit e src_ip dst_ip)
  with assms send_circuit_frame(1) [OF surjective_pairing, of e src_ip dst_ip s] show ?thesis
    by simp
qed

lemma run_distinct:
  assumes "distinct (map fst (compared (agents s)))"
  shows "distinct (map fst (compared (agents (run evs s))))"
  using assms by (induction evs arbitrary: s) (simp_all add: apply_event_distinct)

lemma no_key_no_item:
  "key_of k \<notin> fst ` set (compared kvs) \<Longrightarrow> filter (\<lambda>kv. key_eq (fst kv) k) kvs = []"
  by (induction kvs) (auto simp: compared_def key_eq_def)

lemma distinct_keys_at_most_one:
  assumes "distinct (map fst (compared kvs))"
  shows "length (filter (\<lambda>kv. key_eq (fst kv) k) kvs) \<le> 1"
  using assms
proof (induction kvs)
  case Nil
  then show ?case by simp
next
  case (Cons kv kvs)
  have c: "compared (kv # kvs) = (key_of (fst kv), snd kv) # compared kvs"
    by (simp add: compared_def)
  show ?case
  proof (cases "key_eq (fst kv) k")
    case True
    with Cons.prems c have "key_of k \<notin> fst ` set (compared kvs)"
      by (simp add: key_eq_def)
    then have "filter (\<lambda>kv. key_eq (fst kv) k) kvs = []"
      by (rule no_key_no_item)
    with True show ?thesis by simp
  next
    case False
    with Cons c show ?thesis by simp
  qed
qed

text \<open>
  C7: after any sequence of handler starts, socket closures and circuits, the
  registration map holds no role twice, so at most one socket for a role; roles are
  compared as the dict compares its keys. Registering a socket for a role, occupied or
  not, raises nothing: afterwards the map gives the new socket for the role, every
  role that is not equal to it is as before, and no role is held twice. A closure keeps
  the map without a role held twice.
\<close>

theorem one_endpoint_per_role:
  "distinct (map fst (compared (agents (run evs initial_state))))
   \<and> length (filter (\<lambda>kv. key_eq (fst kv) r) (agents (run evs initial_state))) \<le> 1
   \<and> (hashable role \<longrightarrow>
        (\<exists>s'. handler_open fails status_ok (Message (register_message role ip)) ws
                 (run evs initial_state) = (None, AsAgent role, s')
              \<and> items_get (agents s') role = Some ws
              \<and> (\<forall>r'. \<not> key_eq r' role \<longrightarrow>
                    items_get (agents s') r' = items_get (agents (run evs initial_state)) r')
              \<and> distinct (map fst (compared (agents s')))))
   \<and> distinct (map fst (compared (agents (handler_close b ws (run evs initial_state)))))"
proof -
  have d: "distinct (map fst (compared (agents (run evs initial_state))))"
    by (rule run_distinct) (simp add: initial_state_def compared_def)
  have c: "distinct (map fst (compared (agents (handler_close b ws (run evs initial_state)))))"
    using apply_event_distinct [OF d, of "Closed b ws"] by simp
  have l: "length (filter (\<lambda>kv. key_eq (fst kv) r) (agents (run evs initial_state))) \<le> 1"
    using d by (rule distinct_keys_at_most_one)
  have o: "hashable role \<longrightarrow>
        (\<exists>s'. handler_open fails status_ok (Message (register_message role ip)) ws
                 (run evs initial_state) = (None, AsAgent role, s')
              \<and> items_get (agents s') role = Some ws
              \<and> (\<forall>r'. \<not> key_eq r' role \<longrightarrow>
                    items_get (agents s') r' = items_get (agents (run evs initial_state)) r')
              \<and> distinct (map fst (compared (agents s'))))"
    using items_set_distinct [OF d, of role ws]
    by (simp add: handler_open_register broadcast_frame items_get_set key_eq_def)
  from d l o c show ?thesis by blast
qed

text \<open>C7 where an agent registers with the role \<open>true\<close> on socket 8 while socket 7 holds
  the role 1: the dict holds the one key 1, now with socket 8.\<close>

theorem one_endpoint_per_role_witness:
  "hashable (JBool True)
   \<and> agents (run one_registered initial_state) = [(JNum 1, 7)]
   \<and> (\<exists>s'. handler_open (\<lambda>_. False) True (Message (register_message (JBool True) (JStr ''10.0.9.9''))) 8
              (run one_registered initial_state) = (None, AsAgent (JBool True), s')
          \<and> agents s' = [(JNum 1, 8)]
          \<and> items_get (agents s') (JBool True) = Some 8
          \<and> items_get (agents s') (JStr ''guard'') = None
          \<and> distinct (map fst (compared (agents s'))))"
proof -
  have h: "hashable (JBool True)" "hashable (JNum 1)"
    by (simp_all add: hashable_def)
  have a: "agents (run one_registered initial_state) = [(JNum 1, 7)]"
    by (simp add: one_registered_def handler_open_register h broadcast_frame initial_state_def)
  have k: "\<not> key_eq (JStr ''guard'') (JBool True)"
    by (simp add: key_eq_def key_of_def)
  from one_endpoint_per_role [of one_registered "JBool True" "JBool True" "\<lambda>_. False" True
         "JStr ''10.0.9.9''" 8 Unbound] h a k
  show ?thesis
    by (auto simp: handler_open_register broadcast_frame key_eq_def key_of_def)
qed

text \<open>
  C10: when a role registered on one socket is registered again on another, the
  closure of the first socket leaves the map as it is, with the second socket for the
  role; the closure of the second removes the entry. In any state the closure handler
  changes nothing when the map gives another socket for the role, and removes the entry
  when the map gives the socket that closed.
\<close>

theorem stale_disconnect_keeps_new_endpoint:
  assumes "ws1 \<noteq> ws2" and "hashable role"
  shows "(let s1 = snd (snd (handler_open f1 ok1 (Message (register_message role ip1)) ws1 s));
              s2 = snd (snd (handler_open f2 ok2 (Message (register_message role ip2)) ws2 s1))
          in items_get (agents s2) role = Some ws2
             \<and> agents (handler_close (AsAgent role) ws1 s2) = agents s2
             \<and> items_get (agents (handler_close (AsAgent role) ws2 s2)) role = None)
     \<and> (items_get (agents s) role = Some ws2 \<longrightarrow> handler_close (AsAgent role) ws1 s = s)
     \<and> (items_get (agents s) role = Some ws1 \<longrightarrow>
          items_get (agents (handler_close (AsAgent role) ws1 s)) role = None)"
  using assms
  by (simp add: Let_def handler_open_register broadcast_frame items_get_set handler_close_def
        items_get_del key_eq_def)

text \<open>C10 with a guard on socket 7 replaced by a guard on socket 8: closing socket 7 keeps
  socket 8.\<close>

theorem stale_disconnect_keeps_new_endpoint_witness:
  "(7::nat) \<noteq> 8 \<and> hashable (JStr ''guard'')
   \<and> agents (handler_close (AsAgent (JStr ''guard'')) 7
        (run [Opened (\<lambda>_. False) True (Message (register_message (JStr ''guard'') (JStr ''10.0.1.2''))) 7,
              Opened (\<lambda>_. False) True (Message (register_message (JStr ''guard'') (JStr ''10.0.9.9''))) 8]
           initial_state))
       = [(JStr ''guard'', 8)]"
proof -
  have h: "hashable (JStr ''guard'')"
    by (simp add: hashable_def)
  have n: "(7::nat) \<noteq> 8" by simp
  from stale_disconnect_keeps_new_endpoint [OF n h, of "\<lambda>_. False" True "JStr ''10.0.1.2''" initial_state
         "\<lambda>_. False" True "JStr ''10.0.9.9''"] h n
  show ?thesis
    by (simp add: Let_def handler_open_register broadcast_frame initial_state_def key_eq_def)
qed

subsection \<open>Scheduler\<close>

text \<open>
  One pass of the loop: a circuit is started exactly when the observer set is not empty
  (the circuit counter grows by one then, and nothing changes otherwise). When the
  circuit returns, the count grows by one and a task is created exactly when the new
  count is a multiple of 5. When the circuit raises, the counters are as before.
\<close>

lemma scheduler_tick_originates:
  "\<exists>r s' sc'. scheduler_tick e s sc = (r, s', sc')
       \<and> circuit_counter s' = circuit_counter s + (if browsers s = [] then 0 else 1)
       \<and> (browsers s = [] \<longrightarrow> r = None \<and> s' = s \<and> sc' = sc)
       \<and> (browsers s \<noteq> [] \<longrightarrow> (r, s') = send_circuit e JNull JNull s)
       \<and> (browsers s \<noteq> [] \<and> r = None \<longrightarrow>
             count sc' = count sc + 1
           \<and> spawned sc' = spawned sc + (if count sc' mod 5 = 0 then 1 else 0))
       \<and> (r \<noteq> None \<longrightarrow> sc' = sc)"
proof -
  obtain r1 s1 where sc: "send_circuit e JNull JNull s = (r1, s1)"
    by (cases "send_circuit e JNull JNull s")
  from send_circuit_frame(2) [OF sc] sc show ?thesis
    by (cases r1) (auto simp: scheduler_tick_def Let_def)
qed

lemma scheduler_tick_spawned:
  assumes "scheduler_tick e s sc = (r, s', sc')" and "spawned sc = count sc div 5"
  shows "spawned sc' = count sc' div 5"
proof -
  have "(if (count sc + 1) mod 5 = 0 then count sc div 5 + 1 else count sc div 5) = (count sc + 1) div 5"
    by presburger
  with assms show ?thesis
    by (auto simp: scheduler_tick_def Let_def split: if_splits prod.splits option.splits)
qed

lemma scheduler_tick_count:
  assumes "scheduler_tick e s sc = (None, s', sc')"
  shows "count sc' = count sc + (if browsers s = [] then 0 else 1)"
  using assms
  by (auto simp: scheduler_tick_def Let_def split: if_splits prod.splits option.splits)

text \<open>Over any run of the loop the number of tasks created is the count divided by 5,
  and, when the run has not raised, every circuit counted is one origination.\<close>

lemma auto_scheduler_spawned:
  assumes "auto_scheduler interval ai_key ps s sc tm = (r, s', sc', tm')"
    and "spawned sc = count sc div 5"
  shows "spawned sc' = count sc' div 5"
  using assms
proof (induction ps arbitrary: s sc tm)
  case Nil
  then show ?case by simp
next
  case (Cons p ps)
  obtain s1 wake where sl: "asleep interval ai_key p s tm = (s1, wake)"
    by (cases "asleep interval ai_key p s tm")
  obtain r1 s2 sc2 where st: "scheduler_tick (tick_env p) s1 sc = (r1, s2, sc2)"
    by (cases "scheduler_tick (tick_env p) s1 sc")
  from scheduler_tick_spawned [OF st Cons.prems(2)] have i1: "spawned sc2 = count sc2 div 5" .
  show ?case
  proof (cases r1)
    case None
    with Cons.prems(1) sl st obtain tm2 where
      "auto_scheduler interval ai_key ps s2 sc2 tm2 = (r, s', sc', tm')"
      by (simp add: Let_def)
    from Cons.IH [OF this i1] show ?thesis .
  next
    case (Some err)
    with Cons.prems(1) sl st have "sc' = sc2" by (simp add: Let_def)
    with i1 show ?thesis by simp
  qed
qed

lemma auto_scheduler_originated:
  assumes "auto_scheduler interval ai_key ps s sc tm = (None, s', sc', tm')"
  shows "length (originated tm') + count sc = length (originated tm) + count sc'"
  using assms
proof (induction ps arbitrary: s sc tm)
  case Nil
  then show ?case by simp
next
  case (Cons p ps)
  obtain s1 wake where sl: "asleep interval ai_key p s tm = (s1, wake)"
    by (cases "asleep interval ai_key p s tm")
  obtain r1 s2 sc2 where st: "scheduler_tick (tick_env p) s1 sc = (r1, s2, sc2)"
    by (cases "scheduler_tick (tick_env p) s1 sc")
  from Cons.prems sl st have r1: "r1 = None"
    by (cases r1) (simp_all add: Let_def)
  from scheduler_tick_count [OF st [unfolded r1]]
  have c: "count sc2 = count sc + (if browsers s1 = [] then 0 else 1)" .
  show ?case
  proof (cases "browsers s1 = []")
    case True
    with Cons.prems sl st r1 have
      "auto_scheduler interval ai_key ps s2 sc2
         \<lparr>loop_time = wake, task_pending = (spawned sc2 \<noteq> spawned sc), originated = originated tm\<rparr>
       = (None, s', sc', tm')"
      by (simp add: Let_def)
    from Cons.IH [OF this] c True show ?thesis by simp
  next
    case False
    with Cons.prems sl st r1 have
      "auto_scheduler interval ai_key ps s2 sc2
         \<lparr>loop_time = wake + tick_elapsed p, task_pending = (spawned sc2 \<noteq> spawned sc),
          originated = originated tm @ [wake]\<rparr>
       = (None, s', sc', tm')"
      by (simp add: Let_def)
    from Cons.IH [OF this] c False show ?thesis by simp
  qed
qed

text \<open>
  C9 does not hold of the code in its last part. The scheduler, with one observer, an
  interval of 2500 and an API key, runs its fifth circuit at 13700 and creates the
  task. The task runs when the scheduler sleeps and its call of the analysis holds the
  event loop for 4000, so the sixth circuit is originated at 18000 and not at 16500,
  where the sleep was due to end. Without a key the task returns at once and the sixth
  circuit is originated at 16500. In both runs a circuit is originated at every pass,
  the count reaches 6 and one task has been created.
\<close>

theorem analysis_call_delays_origination:
  "(case auto_scheduler 2500 ''sk-ant'' [slow_analysis, slow_analysis] watched four_done at_11200 of
      (r, s, sc, tm) \<Rightarrow> (r, count sc, spawned sc, originated tm))
     = (None, 6, 1, [13700, 18000])
   \<and> (case auto_scheduler 2500 [] [slow_analysis, slow_analysis] watched four_done at_11200 of
      (r, s, sc, tm) \<Rightarrow> (r, count sc, spawned sc, originated tm))
     = (None, 6, 1, [13700, 16500])"
  by (simp add: asleep_def scheduler_tick_def run_ai_correlation_def circuit_eval slow_analysis_def
        four_done_def at_11200_def quiet_env_def watched_def initial_state_def)

end
